theory Spec2Isabelle
  imports Complex_Main
begin

section \<open>Python and JSON values\<close>

text \<open>
  \<^verbatim>\<open>database/db_utils.py\<close> moves JSON-compatible Python values between the caller and
  the storage layer: event records, condition trees, step templates, payloads and results.
  A value is \<^verbatim>\<open>None\<close>, a \<^verbatim>\<open>bool\<close>, an \<^verbatim>\<open>int\<close>, a \<^verbatim>\<open>float\<close>, a \<^verbatim>\<open>str\<close>,
  a \<^verbatim>\<open>list\<close> or a \<^verbatim>\<open>dict\<close> with string keys. A dict keeps its insertion order
  (an association list with distinct keys).

  The code only compares numbers, and Python compares ints and floats by their exact
  values. So a float is the rational number it denotes, one of the two infinities, or
  NaN (\<^verbatim>\<open>json.loads\<close> reads \<^verbatim>\<open>Infinity\<close>, \<^verbatim>\<open>-Infinity\<close> and \<^verbatim>\<open>NaN\<close>; a caller
  can pass \<^verbatim>\<open>float('nan')\<close> in an event record).
\<close>

datatype pynum = Fin rat | PosInf | NegInf | NaN

datatype pyval =
    PNone
  | PBool bool
  | PInt int
  | PFloat pynum
  | PStr string
  | PList "pyval list"
  | PDict "(string \<times> pyval) list"

text \<open>
  The exceptions that the modelled functions can raise. \<open>StorageError\<close> is any error
  reported by the storage layer for a statement it rejects.
\<close>

datatype error = ValueError string | TypeError | AttributeError | StorageError

text \<open>
  The outcome of comparing two values that Python can order: less, equal, greater, or
  unordered (\<open>Unord\<close>) when a NaN is compared. On an unordered pair each of \<^verbatim>\<open><\<close>,
  \<^verbatim>\<open><=\<close>, \<^verbatim>\<open>>\<close>, \<^verbatim>\<open>>=\<close> and \<^verbatim>\<open>==\<close> is false.
\<close>

datatype cmp = LT | EQ | GT | Unord

text \<open>\<^verbatim>\<open>bool\<close> is a subclass of \<^verbatim>\<open>int\<close>: \<^verbatim>\<open>True\<close> counts as 1 in comparisons.\<close>

fun num_of :: "pyval \<Rightarrow> pynum option" where
  "num_of (PBool b) = Some (Fin (if b then 1 else 0))"
| "num_of (PInt i) = Some (Fin (of_int i))"
| "num_of (PFloat r) = Some r"
| "num_of _ = None"

fun num_cmp :: "pynum \<Rightarrow> pynum \<Rightarrow> cmp" where
  "num_cmp NaN y = Unord"
| "num_cmp x NaN = Unord"
| "num_cmp (Fin x) (Fin y) = (if x < y then LT else if y < x then GT else EQ)"
| "num_cmp PosInf PosInf = EQ"
| "num_cmp NegInf NegInf = EQ"
| "num_cmp PosInf y = GT"
| "num_cmp x PosInf = LT"
| "num_cmp NegInf y = LT"
| "num_cmp x NegInf = GT"

text \<open>
  Python's \<^verbatim>\<open>==\<close>: numbers by value (a NaN equals nothing), strings by content, lists
  element by element, dicts by equal key sets with equal values (whatever the order),
  \<^verbatim>\<open>None\<close> only with itself; values of different kinds are unequal. It never raises.
  The values compared by the code are an event value and a value of a freshly parsed
  condition tree, which are different objects, so the shortcut that Python takes for
  identical objects inside lists and dicts does not arise.
\<close>

function (sequential) py_eq :: "pyval \<Rightarrow> pyval \<Rightarrow> bool" where
  "py_eq PNone PNone = True"
| "py_eq (PStr s) (PStr t) = (s = t)"
| "py_eq (PList xs) (PList ys) =
     (length xs = length ys \<and> list_all (\<lambda>(x, y). py_eq x y) (zip xs ys))"
| "py_eq (PDict xs) (PDict ys) =
     (length xs = length ys \<and>
      list_all (\<lambda>(k, v). case map_of ys k of None \<Rightarrow> False | Some w \<Rightarrow> py_eq v w) xs)"
| "py_eq a b =
     (case (num_of a, num_of b) of (Some x, Some y) \<Rightarrow> num_cmp x y = EQ | _ \<Rightarrow> False)"
  by pat_completeness auto

termination py_eq
proof (relation "measure (\<lambda>(a, b). size a)", goal_cases)
  case 1
  show ?case by simp
next
  case (2 xs ys z x y)
  then have "x \<in> set xs" by (auto dest: set_zip_leftD)
  then have "size x \<le> size_list size xs" by (rule size_list_estimation') simp
  then show ?case by simp
next
  case (3 xs ys z k v w)
  then have "(k, v) \<in> set xs" by simp
  then have "size_prod (\<lambda>x. 0) size (k, v) \<le> size_list (size_prod (\<lambda>x. 0) size) xs"
    by (rule size_list_estimation') simp
  then show ?case by simp
qed

definition py_ne :: "pyval \<Rightarrow> pyval \<Rightarrow> bool" where
  "py_ne a b = (\<not> py_eq a b)"

text \<open>Strings are ordered lexicographically by character code.\<close>

fun str_cmp :: "string \<Rightarrow> string \<Rightarrow> cmp" where
  "str_cmp [] [] = EQ"
| "str_cmp [] (d # ds) = LT"
| "str_cmp (c # cs) [] = GT"
| "str_cmp (c # cs) (d # ds) =
     (if (of_char c :: nat) < of_char d then LT
      else if (of_char d :: nat) < of_char c then GT
      else str_cmp cs ds)"

text \<open>
  Python's ordering: numbers with numbers, strings with strings, lists with lists (the
  first pair of elements that are not \<^verbatim>\<open>==\<close> decides, otherwise the lengths do). Every
  other pairing raises \<^verbatim>\<open>TypeError\<close>, here \<open>None\<close>.
\<close>

fun py_cmp :: "pyval \<Rightarrow> pyval \<Rightarrow> cmp option"
  and list_cmp :: "pyval list \<Rightarrow> pyval list \<Rightarrow> cmp option" where
  "py_cmp (PStr s) b = (case b of PStr t \<Rightarrow> Some (str_cmp s t) | _ \<Rightarrow> None)"
| "py_cmp (PList xs) b = (case b of PList ys \<Rightarrow> list_cmp xs ys | _ \<Rightarrow> None)"
| "py_cmp PNone b = None"
| "py_cmp (PDict kvs) b = None"
| "py_cmp (PBool p) b =
     (case num_of b of Some y \<Rightarrow> Some (num_cmp (Fin (if p then 1 else 0)) y) | None \<Rightarrow> None)"
| "py_cmp (PInt i) b =
     (case num_of b of Some y \<Rightarrow> Some (num_cmp (Fin (of_int i)) y) | None \<Rightarrow> None)"
| "py_cmp (PFloat r) b =
     (case num_of b of Some y \<Rightarrow> Some (num_cmp r y) | None \<Rightarrow> None)"
| "list_cmp [] [] = Some EQ"
| "list_cmp [] (y # ys) = Some LT"
| "list_cmp (x # xs) [] = Some GT"
| "list_cmp (x # xs) (y # ys) = (if py_eq x y then list_cmp xs ys else py_cmp x y)"

text \<open>
  The four ordering operators \<^verbatim>\<open><=\<close>, \<^verbatim>\<open>>=\<close>, \<^verbatim>\<open>>\<close>, \<^verbatim>\<open><\<close>. On an unordered pair
  all four are false, so \<^verbatim>\<open>not (x <= v)\<close> is not \<^verbatim>\<open>x > v\<close>.
\<close>

definition py_le :: "pyval \<Rightarrow> pyval \<Rightarrow> error + bool" where
  "py_le a b =
     (case py_cmp a b of None \<Rightarrow> Inl TypeError | Some c \<Rightarrow> Inr (c = LT \<or> c = EQ))"

definition py_ge :: "pyval \<Rightarrow> pyval \<Rightarrow> error + bool" where
  "py_ge a b =
     (case py_cmp a b of None \<Rightarrow> Inl TypeError | Some c \<Rightarrow> Inr (c = GT \<or> c = EQ))"

definition py_gt :: "pyval \<Rightarrow> pyval \<Rightarrow> error + bool" where
  "py_gt a b = (case py_cmp a b of None \<Rightarrow> Inl TypeError | Some c \<Rightarrow> Inr (c = GT))"

definition py_lt :: "pyval \<Rightarrow> pyval \<Rightarrow> error + bool" where
  "py_lt a b = (case py_cmp a b of None \<Rightarrow> Inl TypeError | Some c \<Rightarrow> Inr (c = LT))"

text \<open>A value that is a NaN or a list with such a value in it.\<close>

fun contains_nan :: "pyval \<Rightarrow> bool" where
  "contains_nan (PFloat r) = (r = NaN)"
| "contains_nan (PList xs) = list_ex contains_nan xs"
| "contains_nan _ = False"

section \<open>The condition checker\<close>

text \<open>
  \<^verbatim>\<open>_check_conditions(event_data, conditions)\<close>. The inner loop over the operator
  mapping of one key:
  \<^verbatim>\<open>
  for op, value in condition.items():
      if op == "$gt" and event_data[key] <= value: return False
      elif op == "$lt" and event_data[key] >= value: return False
      elif op == "$eq" and event_data[key] != value: return False
  \<close>
  \<open>Inr False\<close> is the early \<^verbatim>\<open>return False\<close>, \<open>Inr True\<close> is the loop running to its
  end, \<open>Inl\<close> is an exception raised by a comparison.
\<close>

fun check_ops :: "pyval \<Rightarrow> (string \<times> pyval) list \<Rightarrow> error + bool" where
  "check_ops x [] = Inr True"
| "check_ops x ((opr, v) # rest) =
     (if opr = ''$gt'' then
        (case py_le x v of
           Inl e \<Rightarrow> Inl e
         | Inr b \<Rightarrow> if b then Inr False else check_ops x rest)
      else if opr = ''$lt'' then
        (case py_ge x v of
           Inl e \<Rightarrow> Inl e
         | Inr b \<Rightarrow> if b then Inr False else check_ops x rest)
      else if opr = ''$eq'' then
        (if py_ne x v then Inr False else check_ops x rest)
      else check_ops x rest)"

text \<open>
  The outer loop:
  \<^verbatim>\<open>
  for key, condition in conditions.items():
      if key in event_data:
          if isinstance(condition, dict): ... (the inner loop)
          elif event_data[key] != condition: return False
  return True
  \<close>
  The event record is a dict read by key only, a map; the condition tree is iterated,
  an association list.
\<close>

fun check_conditions :: "(string \<rightharpoonup> pyval) \<Rightarrow> (string \<times> pyval) list \<Rightarrow> error + bool" where
  "check_conditions event_data [] = Inr True"
| "check_conditions event_data ((key, condition) # rest) =
     (case event_data key of
        None \<Rightarrow> check_conditions event_data rest
      | Some x \<Rightarrow>
          (case condition of
             PDict ops \<Rightarrow>
               (case check_ops x ops of
                  Inl e \<Rightarrow> Inl e
                | Inr b \<Rightarrow> if b then check_conditions event_data rest else Inr False)
           | _ \<Rightarrow> if py_ne x condition then Inr False else check_conditions event_data rest))"

text \<open>
  What the matcher decides, operator by operator: \<^verbatim>\<open>$gt\<close> fails when the event value
  is less than or equal to the condition value, \<^verbatim>\<open>$lt\<close> fails when it is greater than
  or equal, \<^verbatim>\<open>$eq\<close> and a plain literal fail when it is not equal, and any other
  operator never fails. An operator passes when its comparison is defined and it does not
  fail; a condition tree matches when every operator and literal of every key that the
  event has passes.
\<close>

definition op_passes :: "string \<Rightarrow> pyval \<Rightarrow> pyval \<Rightarrow> bool" where
  "op_passes opr x v =
     (if opr = ''$gt'' then py_le x v = Inr False
      else if opr = ''$lt'' then py_ge x v = Inr False
      else if opr = ''$eq'' then py_eq x v
      else True)"

definition cond_passes :: "pyval \<Rightarrow> pyval \<Rightarrow> bool" where
  "cond_passes x condition =
     (case condition of
        PDict ops \<Rightarrow> list_all (\<lambda>(opr, v). op_passes opr x v) ops
      | _ \<Rightarrow> py_eq x condition)"

definition matches :: "(string \<rightharpoonup> pyval) \<Rightarrow> (string \<times> pyval) list \<Rightarrow> bool" where
  "matches event_data conditions =
     list_all (\<lambda>(key, condition).
        case event_data key of None \<Rightarrow> True | Some x \<Rightarrow> cond_passes x condition) conditions"

text \<open>
  No ordering comparison that the checker can reach raises: the values compared by
  \<^verbatim>\<open>$gt\<close> and \<^verbatim>\<open>$lt\<close> are of kinds that Python orders.
\<close>

definition op_orderable :: "string \<Rightarrow> pyval \<Rightarrow> pyval \<Rightarrow> bool" where
  "op_orderable opr x v = (opr = ''$gt'' \<or> opr = ''$lt'' \<longrightarrow> py_cmp x v \<noteq> None)"

definition orderable :: "(string \<rightharpoonup> pyval) \<Rightarrow> (string \<times> pyval) list \<Rightarrow> bool" where
  "orderable event_data conditions =
     list_all (\<lambda>(key, condition).
        case event_data key of
          None \<Rightarrow> True
        | Some x \<Rightarrow>
            (case condition of
               PDict ops \<Rightarrow> list_all (\<lambda>(opr, v). op_orderable opr x v) ops
             | _ \<Rightarrow> True)) conditions"

section \<open>The storage state\<close>

text \<open>
  Every function of \<^verbatim>\<open>DatabaseUtils\<close> runs SQL statements on the tables
  \<^verbatim>\<open>ops_trading_proposals\<close>, \<^verbatim>\<open>ops_missions\<close>, \<^verbatim>\<open>ops_mission_steps\<close> and
  \<^verbatim>\<open>ops_trigger_rules\<close>. A table is the list of its rows, in storage order; a row
  is a record of the columns that the statements read or write; a nullable column is an
  \<open>option\<close>. A JSON column holds the value that \<^verbatim>\<open>json.loads\<close> gives for it. Ids are
  natural numbers and timestamps are microseconds, the resolution of the storage layer.
  \<^verbatim>\<open>NOW()\<close> is an argument of each operation.
\<close>

type_synonym uuid = nat
type_synonym time = int

text \<open>
  Modelled from the spec: the types of the columns. The table declarations are not part of
  \<^verbatim>\<open>db_utils.py\<close>; the column names are those of its SQL statements, and the data
  model of the specification gives their kinds: ids, text for names, kinds and statuses,
  JSON for step templates, payloads, results, metadata and conditions, timestamps, an
  enabled flag and a cooldown in minutes. The assignee, the timeout deadline, the result,
  the error and the timestamps that an operation sets later are nullable. Columns that no
  modelled statement reads or writes (prices, creation time of a proposal) are left out.
\<close>

record proposal =
  p_id :: uuid
  p_agent_id :: string
  p_title :: string
  p_signal_type :: string
  p_proposed_steps :: pyval
  p_status :: string
  p_accepted_at :: "time option"

record mission =
  m_id :: uuid
  m_title :: string
  m_created_by :: string
  m_mission_type :: string
  m_proposal_id :: "uuid option"
  m_metadata :: pyval
  m_status :: string
  m_created_at :: time
  m_completed_at :: "time option"

record step =
  s_id :: uuid
  s_mission_id :: uuid
  s_kind :: string
  s_payload :: pyval
  s_assigned_to :: "string option"
  s_status :: string
  s_timeout_at :: "time option"
  s_result :: "pyval option"
  s_error :: "string option"
  s_created_at :: time
  s_started_at :: "time option"
  s_completed_at :: "time option"

record trigger_rule =
  t_id :: uuid
  t_enabled :: bool
  t_trigger_event :: string
  t_conditions :: pyval
  t_cooldown_minutes :: int
  t_last_fired_at :: "time option"

text \<open>
  \<open>next_id\<close> is the supply of generated ids (\<^verbatim>\<open>RETURNING id\<close> of an insert).
\<close>

record database =
  proposals :: "proposal list"
  missions :: "mission list"
  steps :: "step list"
  trigger_rules :: "trigger_rule list"
  next_id :: uuid

text \<open>
  The column defaults that an insert leaves to the schema. The schema is not part of
  \<^verbatim>\<open>db_utils.py\<close>, so they are a parameter: the status of a new mission, the status
  of a new step, and the timeout deadline of a step created at a given time.
\<close>

record defaults =
  d_mission_status :: string
  d_step_status :: string
  d_step_timeout :: "time \<Rightarrow> time option"

section \<open>The step ledger\<close>

text \<open>
  \<^verbatim>\<open>get_queued_steps(db, kind=None, limit=5)\<close>:
  \<^verbatim>\<open>
  SELECT s.*, m.title as mission_title, m.created_by
  FROM ops_mission_steps s JOIN ops_missions m ON s.mission_id = m.id
  WHERE s.status = 'queued' AND s.timeout_at > NOW()
  [AND s.kind = %s]          -- appended under "if kind:"
  ORDER BY s.created_at ASC LIMIT %s
  \<close>
  \<^verbatim>\<open>if kind:\<close> is Python truthiness: \<^verbatim>\<open>None\<close> and the empty string add no filter.
  A comparison with a NULL deadline does not select the row. Rows with the same creation
  time keep their storage order. The storage layer rejects a negative \<^verbatim>\<open>LIMIT\<close>.
\<close>

record queued_row =
  q_step :: step
  q_mission_title :: string
  q_created_by :: string

definition join_missions :: "database \<Rightarrow> (step \<times> mission) list" where
  "join_missions db =
     concat (map (\<lambda>s. map (Pair s) (filter (\<lambda>m. s_mission_id s = m_id m) (missions db)))
       (steps db))"

definition queued_unexpired :: "time \<Rightarrow> step \<Rightarrow> bool" where
  "queued_unexpired now s =
     (s_status s = ''queued'' \<and>
      (case s_timeout_at s of None \<Rightarrow> False | Some t \<Rightarrow> now < t))"

definition kind_filter :: "string option \<Rightarrow> step \<Rightarrow> bool" where
  "kind_filter kind s =
     (case kind of None \<Rightarrow> True | Some k \<Rightarrow> if k = [] then True else s_kind s = k)"

definition get_queued_steps ::
  "database \<Rightarrow> string option \<Rightarrow> int \<Rightarrow> time \<Rightarrow> error + queued_row list" where
  "get_queued_steps db kind limit now =
     (let selected = filter (\<lambda>(s, m). queued_unexpired now s \<and> kind_filter kind s)
                       (join_missions db);
          ordered = sort_key (\<lambda>(s, m). s_created_at s) selected
      in if limit < 0 then Inl StorageError
         else Inr (map (\<lambda>(s, m). \<lparr>q_step = s, q_mission_title = m_title m,
                                   q_created_by = m_created_by m\<rparr>)
                    (take (nat limit) ordered)))"

text \<open>
  \<^verbatim>\<open>claim_step(db, step_id, assigned_to)\<close>:
  \<^verbatim>\<open>
  UPDATE ops_mission_steps SET status = 'running', assigned_to = %s, started_at = NOW()
  WHERE id = %s AND status = 'queued' RETURNING id
  return result.rowcount > 0
  \<close>
\<close>

definition claim_row :: "string \<Rightarrow> time \<Rightarrow> step \<Rightarrow> step" where
  "claim_row assigned_to now s =
     s\<lparr>s_status := ''running'', s_assigned_to := Some assigned_to, s_started_at := Some now\<rparr>"

definition claim_step :: "database \<Rightarrow> uuid \<Rightarrow> string \<Rightarrow> time \<Rightarrow> database \<times> bool" where
  "claim_step db step_id assigned_to now =
     (let hit = (\<lambda>s. s_id s = step_id \<and> s_status s = ''queued'');
          rowcount = length (filter hit (steps db))
      in (db\<lparr>steps := map (\<lambda>s. if hit s then claim_row assigned_to now s else s) (steps db)\<rparr>,
          0 < rowcount))"

text \<open>
  \<^verbatim>\<open>complete_step(db, step_id, result_data=None, error=None)\<close>:
  \<^verbatim>\<open>
  status = 'failed' if error else 'succeeded'
  result_json = json.dumps(result_data) if result_data else None
  UPDATE ops_mission_steps SET status = %s, result = %s::jsonb, error = %s,
         completed_at = NOW()
  WHERE id = %s AND status = 'running' RETURNING mission_id
  if db_result.rowcount == 0: return False
  mission_id = db_result.fetchone()[0]
  pending = SELECT COUNT(*) FROM ops_mission_steps
            WHERE mission_id = %s AND status IN ('queued', 'running')
  if pending == 0:
      UPDATE ops_missions SET status = 'succeeded', completed_at = NOW() WHERE id = %s
  return True
  \<close>
  Both conditional expressions are Python truthiness: an empty error string counts as no
  error for the status (the string itself is still written to the error column), and an
  empty result mapping is written as NULL.
\<close>

definition pending_count :: "database \<Rightarrow> uuid \<Rightarrow> nat" where
  "pending_count db mission_id =
     length (filter (\<lambda>s. s_mission_id s = mission_id \<and>
                          (s_status s = ''queued'' \<or> s_status s = ''running'')) (steps db))"

definition completed_status :: "string option \<Rightarrow> string" where
  "completed_status err =
     (case err of None \<Rightarrow> ''succeeded''
      | Some e \<Rightarrow> if e = [] then ''succeeded'' else ''failed'')"

definition result_json :: "(string \<times> pyval) list option \<Rightarrow> pyval option" where
  "result_json result_data =
     (case result_data of None \<Rightarrow> None
      | Some kvs \<Rightarrow> if kvs = [] then None else Some (PDict kvs))"

definition complete_row ::
  "(string \<times> pyval) list option \<Rightarrow> string option \<Rightarrow> time \<Rightarrow> step \<Rightarrow> step" where
  "complete_row result_data err now s =
     s\<lparr>s_status := completed_status err, s_result := result_json result_data,
       s_error := err, s_completed_at := Some now\<rparr>"

definition complete_step ::
  "database \<Rightarrow> uuid \<Rightarrow> (string \<times> pyval) list option \<Rightarrow> string option \<Rightarrow> time
     \<Rightarrow> database \<times> bool" where
  "complete_step db step_id result_data err now =
     (let hit = (\<lambda>s. s_id s = step_id \<and> s_status s = ''running'');
          returned = map s_mission_id (filter hit (steps db))
      in case returned of
           [] \<Rightarrow> (db, False)
         | mission_id # _ \<Rightarrow>
             (let db1 = db\<lparr>steps :=
                            map (\<lambda>s. if hit s then complete_row result_data err now s else s)
                              (steps db)\<rparr>
              in if pending_count db1 mission_id = 0
                 then (db1\<lparr>missions :=
                             map (\<lambda>m. if m_id m = mission_id
                                       then m\<lparr>m_status := ''succeeded'',
                                              m_completed_at := Some now\<rparr>
                                       else m) (missions db1)\<rparr>, True)
                 else (db1, True)))"

text \<open>
  A worker's call on the ledger, and a sequence of such calls run one after the other.
  Each call is a single statement sequence on the shared storage state, so interleaved
  callers are a sequence of calls.
\<close>

datatype ledger_call =
    Claim uuid string time
  | Complete uuid "(string \<times> pyval) list option" "string option" time

fun run_call :: "database \<Rightarrow> ledger_call \<Rightarrow> database \<times> bool" where
  "run_call db (Claim step_id assigned_to now) = claim_step db step_id assigned_to now"
| "run_call db (Complete step_id result_data err now) =
     complete_step db step_id result_data err now"

fun run_calls :: "database \<Rightarrow> ledger_call list \<Rightarrow> database \<times> bool list" where
  "run_calls db [] = (db, [])"
| "run_calls db (c # cs) =
     (case run_call db c of
        (db1, r) \<Rightarrow> (case run_calls db1 cs of (db2, rs) \<Rightarrow> (db2, r # rs)))"

section \<open>The trigger registry\<close>

text \<open>
  \<^verbatim>\<open>evaluate_triggers(db, event_data)\<close>:
  \<^verbatim>\<open>
  SELECT tr.* FROM ops_trigger_rules tr
  WHERE tr.enabled = true
  AND (tr.last_fired_at IS NULL
       OR tr.last_fired_at < NOW() - INTERVAL '1 minute' * tr.cooldown_minutes)
  AND tr.trigger_event = %s              -- event_data.get('event_type')
  for trigger in triggers:
      conditions = json.loads(trigger['conditions'])
      if DatabaseUtils._check_conditions(event_data, conditions):
          matching_triggers.append(trigger)
  \<close>
  One minute is 60000000 microseconds. The query parameter is the value under
  \<^verbatim>\<open>'event_type'\<close>: a missing key or \<^verbatim>\<open>None\<close> is NULL, which equals no event name;
  a string is compared; the storage layer rejects the comparison of the text column with
  a parameter of any other kind. \<^verbatim>\<open>conditions.items()\<close> raises \<^verbatim>\<open>AttributeError\<close> on
  a condition column that is not a JSON object.
\<close>

definition off_cooldown :: "time \<Rightarrow> trigger_rule \<Rightarrow> bool" where
  "off_cooldown now tr =
     (case t_last_fired_at tr of
        None \<Rightarrow> True
      | Some fired \<Rightarrow> fired < now - 60000000 * t_cooldown_minutes tr)"

definition conditions_match :: "(string \<rightharpoonup> pyval) \<Rightarrow> trigger_rule \<Rightarrow> error + bool" where
  "conditions_match event_data tr =
     (case t_conditions tr of
        PDict conditions \<Rightarrow> check_conditions event_data conditions
      | _ \<Rightarrow> Inl AttributeError)"

fun match_triggers ::
  "(string \<rightharpoonup> pyval) \<Rightarrow> trigger_rule list \<Rightarrow> error + trigger_rule list" where
  "match_triggers event_data [] = Inr []"
| "match_triggers event_data (tr # trs) =
     (case conditions_match event_data tr of
        Inl e \<Rightarrow> Inl e
      | Inr b \<Rightarrow>
          (case match_triggers event_data trs of
             Inl e \<Rightarrow> Inl e
           | Inr rest \<Rightarrow> Inr (if b then tr # rest else rest)))"

definition evaluate_triggers ::
  "database \<Rightarrow> (string \<rightharpoonup> pyval) \<Rightarrow> time \<Rightarrow> error + trigger_rule list" where
  "evaluate_triggers db event_data now =
     (case event_data ''event_type'' of
        None \<Rightarrow> Inr []
      | Some PNone \<Rightarrow> Inr []
      | Some (PStr event_type) \<Rightarrow>
          match_triggers event_data
            (filter (\<lambda>tr. t_enabled tr \<and> off_cooldown now tr \<and>
                           t_trigger_event tr = event_type) (trigger_rules db))
      | Some _ \<Rightarrow> Inl StorageError)"

section \<open>Compiling a proposal into a mission\<close>

text \<open>\<^verbatim>\<open>str(proposal_id)\<close>: the 32 hexadecimal digits of the id, grouped 8-4-4-4-12.\<close>

definition hex_digit :: "nat \<Rightarrow> char" where
  "hex_digit n = ''0123456789abcdef'' ! (n mod 16)"

fun hex_digits :: "nat \<Rightarrow> nat \<Rightarrow> string" where
  "hex_digits 0 v = []"
| "hex_digits (Suc n) v = hex_digits n (v div 16) @ [hex_digit v]"

definition uuid_str :: "uuid \<Rightarrow> string" where
  "uuid_str u =
     (let h = hex_digits 32 u
      in take 8 h @ ''-'' @ take 4 (drop 8 h) @ ''-'' @ take 4 (drop 12 h) @ ''-'' @
         take 4 (drop 16 h) @ ''-'' @ drop 20 h)"

text \<open>\<^verbatim>\<open>step.get(key, default)\<close> on a dict.\<close>

definition dict_get :: "(string \<times> pyval) list \<Rightarrow> string \<Rightarrow> pyval \<Rightarrow> pyval" where
  "dict_get kvs key dflt = (case map_of kvs key of None \<Rightarrow> dflt | Some v \<Rightarrow> v)"

text \<open>
  \<^verbatim>\<open>for step in steps\<close>: a list gives its elements, a dict its keys, a string its
  characters; nothing else is iterable.
\<close>

definition py_iter :: "pyval \<Rightarrow> error + pyval list" where
  "py_iter v =
     (case v of
        PList xs \<Rightarrow> Inr xs
      | PDict kvs \<Rightarrow> Inr (map (\<lambda>(k, w). PStr k) kvs)
      | PStr cs \<Rightarrow> Inr (map (\<lambda>c. PStr [c]) cs)
      | _ \<Rightarrow> Inl TypeError)"

text \<open>
  A query parameter for a text column: a string, or \<^verbatim>\<open>None\<close> for NULL. The storage
  layer is taken to reject a parameter of any other kind.
\<close>

definition text_param :: "pyval \<Rightarrow> error + string option" where
  "text_param v =
     (case v of PStr s \<Rightarrow> Inr (Some s) | PNone \<Rightarrow> Inr None | _ \<Rightarrow> Inl StorageError)"

text \<open>
  The loop that inserts the steps:
  \<^verbatim>\<open>
  for step in steps:
      INSERT INTO ops_mission_steps (mission_id, kind, payload, assigned_to)
      VALUES (mission_id, step.get('kind', 'analyze'),
              json.dumps(step.get('payload', {})), step.get('assigned_to'))
  \<close>
  \<open>step_params\<close> is the kind, payload and assignee that one insert takes from a
  template, or the exception it raises: \<^verbatim>\<open>step.get\<close> raises \<^verbatim>\<open>AttributeError\<close> on
  a template that is not a dict, and the kind column takes no NULL. The loop returns the
  working state reached and the exception that stopped it, if any.
\<close>

definition step_params :: "pyval \<Rightarrow> error + (string \<times> pyval \<times> string option)" where
  "step_params step =
     (case step of
        PDict kvs \<Rightarrow>
          (case text_param (dict_get kvs ''kind'' (PStr ''analyze'')) of
             Inl e \<Rightarrow> Inl e
           | Inr None \<Rightarrow> Inl StorageError
           | Inr (Some kind) \<Rightarrow>
               (case text_param (dict_get kvs ''assigned_to'' PNone) of
                  Inl e \<Rightarrow> Inl e
                | Inr assigned_to \<Rightarrow>
                    Inr (kind, dict_get kvs ''payload'' (PDict []), assigned_to)))
      | _ \<Rightarrow> Inl AttributeError)"

definition new_step ::
  "defaults \<Rightarrow> uuid \<Rightarrow> uuid \<Rightarrow> string \<Rightarrow> pyval \<Rightarrow> string option \<Rightarrow> time \<Rightarrow> step" where
  "new_step dflt new_id mission_id kind payload assigned_to now =
     \<lparr>s_id = new_id, s_mission_id = mission_id, s_kind = kind, s_payload = payload,
      s_assigned_to = assigned_to, s_status = d_step_status dflt,
      s_timeout_at = d_step_timeout dflt now, s_result = None, s_error = None,
      s_created_at = now, s_started_at = None, s_completed_at = None\<rparr>"

fun insert_steps ::
  "defaults \<Rightarrow> database \<Rightarrow> uuid \<Rightarrow> time \<Rightarrow> pyval list \<Rightarrow> database \<times> error option" where
  "insert_steps dflt w mission_id now [] = (w, None)"
| "insert_steps dflt w mission_id now (step # rest) =
     (case step_params step of
        Inl e \<Rightarrow> (w, Some e)
      | Inr (kind, payload, assigned_to) \<Rightarrow>
          insert_steps dflt
            (w\<lparr>steps := steps w @
                  [new_step dflt (next_id w) mission_id kind payload assigned_to now],
               next_id := Suc (next_id w)\<rparr>)
            mission_id now rest)"

text \<open>
  The body of the \<^verbatim>\<open>try\<close> block of \<^verbatim>\<open>create_mission_from_proposal\<close>, on the working
  state of the open transaction:
  \<^verbatim>\<open>
  proposal = SELECT title, agent_id, signal_type, proposed_steps
             FROM ops_trading_proposals WHERE id = %s AND status = 'accepted' FOR UPDATE
  if not proposal: raise ValueError("Proposal not found or not accepted")
  mission_id = INSERT INTO ops_missions (title, created_by, mission_type, proposal_id,
                 metadata) VALUES (%s, %s, 'entry', %s, %s::jsonb) RETURNING id
  steps = json.loads(proposal['proposed_steps'])
  (the loop)
  UPDATE ops_trading_proposals SET status = 'accepted', accepted_at = NOW() WHERE id = %s
  \<close>
  It returns the working state reached, with the exception raised or the mission id.
\<close>

definition compile_body ::
  "defaults \<Rightarrow> database \<Rightarrow> uuid \<Rightarrow> string \<Rightarrow> time \<Rightarrow> database \<times> (error + uuid)" where
  "compile_body dflt w proposal_id created_by now =
     (case find (\<lambda>p. p_id p = proposal_id \<and> p_status p = ''accepted'') (proposals w) of
        None \<Rightarrow> (w, Inl (ValueError ''Proposal not found or not accepted''))
      | Some proposal \<Rightarrow>
          (let mission_id = next_id w;
               metadata = PDict [(''source_proposal'', PStr (uuid_str proposal_id)),
                                 (''original_agent'', PStr (p_agent_id proposal)),
                                 (''signal_type'', PStr (p_signal_type proposal))];
               w1 = w\<lparr>missions := missions w @
                         [\<lparr>m_id = mission_id, m_title = p_title proposal,
                           m_created_by = created_by, m_mission_type = ''entry'',
                           m_proposal_id = Some proposal_id, m_metadata = metadata,
                           m_status = d_mission_status dflt, m_created_at = now,
                           m_completed_at = None\<rparr>],
                       next_id := Suc (next_id w)\<rparr>
           in case py_iter (p_proposed_steps proposal) of
                Inl e \<Rightarrow> (w1, Inl e)
              | Inr templates \<Rightarrow>
                  (case insert_steps dflt w1 mission_id now templates of
                     (w2, Some e) \<Rightarrow> (w2, Inl e)
                   | (w2, None) \<Rightarrow>
                       (w2\<lparr>proposals :=
                             map (\<lambda>p. if p_id p = proposal_id
                                       then p\<lparr>p_status := ''accepted'',
                                              p_accepted_at := Some now\<rparr>
                                       else p) (proposals w2)\<rparr>,
                        Inr mission_id))))"

text \<open>
  \<^verbatim>\<open>create_mission_from_proposal(db, proposal_id, created_by)\<close>: \<^verbatim>\<open>BEGIN\<close>, the body,
  then \<^verbatim>\<open>COMMIT\<close> and the mission id; or, in the \<^verbatim>\<open>except\<close> branch, \<^verbatim>\<open>ROLLBACK\<close>,
  which drops the working state, and the exception raised again.
\<close>

definition create_mission_from_proposal ::
  "defaults \<Rightarrow> database \<Rightarrow> uuid \<Rightarrow> string \<Rightarrow> time \<Rightarrow> database \<times> (error + uuid)" where
  "create_mission_from_proposal dflt db proposal_id created_by now =
     (case compile_body dflt db proposal_id created_by now of
        (w, Inl e) \<Rightarrow> (db, Inl e)
      | (w, Inr mission_id) \<Rightarrow> (w, Inr mission_id))"

section \<open>Example storage states\<close>

text \<open>
  A mission with a queued step and a running step, and the same mission with the running
  step alone. They are the concrete inputs on which the properties below are evaluated.
\<close>

definition example_mission :: mission where
  "example_mission =
     \<lparr>m_id = 1, m_title = ''BTC accumulation signal'', m_created_by = ''intel'',
      m_mission_type = ''entry'', m_proposal_id = None, m_metadata = PDict [],
      m_status = ''running'', m_created_at = 0, m_completed_at = None\<rparr>"

definition queued_step :: step where
  "queued_step =
     \<lparr>s_id = 10, s_mission_id = 1, s_kind = ''analyze'', s_payload = PDict [],
      s_assigned_to = Some ''sage'', s_status = ''queued'', s_timeout_at = Some 1000,
      s_result = None, s_error = None, s_created_at = 0, s_started_at = None,
      s_completed_at = None\<rparr>"

definition running_step :: step where
  "running_step =
     \<lparr>s_id = 11, s_mission_id = 1, s_kind = ''execute_trade'', s_payload = PDict [],
      s_assigned_to = Some ''scout'', s_status = ''running'', s_timeout_at = Some 1000,
      s_result = None, s_error = None, s_created_at = 1, s_started_at = Some 5,
      s_completed_at = None\<rparr>"

definition example_db :: database where
  "example_db =
     \<lparr>proposals = [], missions = [example_mission], steps = [queued_step, running_step],
      trigger_rules = [], next_id = 12\<rparr>"

definition single_step_db :: database where
  "single_step_db =
     \<lparr>proposals = [], missions = [example_mission], steps = [running_step],
      trigger_rules = [], next_id = 12\<rparr>"

section \<open>Invariants of the step ledger\<close>

text \<open>No row of the given step id is queued, or running.\<close>

definition no_queued :: "uuid \<Rightarrow> database \<Rightarrow> bool" where
  "no_queued sid db = (\<forall>x \<in> set (steps db). s_id x = sid \<longrightarrow> s_status x \<noteq> ''queued'')"

definition no_running :: "uuid \<Rightarrow> database \<Rightarrow> bool" where
  "no_running sid db = (\<forall>x \<in> set (steps db). s_id x = sid \<longrightarrow> s_status x \<noteq> ''running'')"

section \<open>The rules selected for an event\<close>

text \<open>
  The rules that should be reported for an event: enabled, listening for the event's kind,
  with the cooldown window elapsed (never fired, or fired before now minus the cooldown),
  and with a condition tree on which the condition matcher returns true.
\<close>

definition rule_fires :: "time \<Rightarrow> (string \<rightharpoonup> pyval) \<Rightarrow> trigger_rule \<Rightarrow> bool" where
  "rule_fires now event_data tr =
     (t_enabled tr \<and>
      event_data ''event_type'' = Some (PStr (t_trigger_event tr)) \<and>
      (case t_last_fired_at tr of
         None \<Rightarrow> True
       | Some fired \<Rightarrow> fired < now - 60000000 * t_cooldown_minutes tr) \<and>
      (case t_conditions tr of
         PDict conditions \<Rightarrow> check_conditions event_data conditions = Inr True
       | _ \<Rightarrow> False))"

text \<open>
  Two rules for the same event: one with a condition on the price that has never fired,
  one without conditions that fired at time 0 with a cooldown of five minutes.
\<close>

definition rule_price :: trigger_rule where
  "rule_price =
     \<lparr>t_id = 1, t_enabled = True, t_trigger_event = ''price_alert'',
      t_conditions = PDict [(''price'', PDict [(''$gt'', PInt 50)])],
      t_cooldown_minutes = 5, t_last_fired_at = None\<rparr>"

definition rule_cooling :: trigger_rule where
  "rule_cooling =
     \<lparr>t_id = 2, t_enabled = True, t_trigger_event = ''price_alert'',
      t_conditions = PDict [], t_cooldown_minutes = 5, t_last_fired_at = Some 0\<rparr>"

definition rules_db :: database where
  "rules_db =
     \<lparr>proposals = [], missions = [], steps = [],
      trigger_rules = [rule_price, rule_cooling], next_id = 3\<rparr>"

text \<open>
  Three events of that kind: with a price above the threshold of the first rule, with a
  price below it, and with a price that is a string.
\<close>

definition price_event :: "string \<rightharpoonup> pyval" where
  "price_event = [''event_type'' \<mapsto> PStr ''price_alert'', ''price'' \<mapsto> PInt 100]"

definition low_price_event :: "string \<rightharpoonup> pyval" where
  "low_price_event = [''event_type'' \<mapsto> PStr ''price_alert'', ''price'' \<mapsto> PInt 40]"

definition text_price_event :: "string \<rightharpoonup> pyval" where
  "text_price_event = [''event_type'' \<mapsto> PStr ''price_alert'', ''price'' \<mapsto> PStr ''abc'']"

section \<open>Example proposals\<close>

text \<open>
  Column defaults for the examples, and three proposals: an accepted one with the two
  step templates of the usage example at the end of \<^verbatim>\<open>db_utils.py\<close>, a pending
  one, and an accepted one whose second template is not a mapping.
\<close>

definition example_defaults :: defaults where
  "example_defaults =
     \<lparr>d_mission_status = ''running'', d_step_status = ''queued'',
      d_step_timeout = (\<lambda>t. Some (t + 1800000000))\<rparr>"

definition accepted_proposal :: proposal where
  "accepted_proposal =
     \<lparr>p_id = 7, p_agent_id = ''intel'', p_title = ''BTC accumulation signal'',
      p_signal_type = ''KOL_accumulation'',
      p_proposed_steps =
        PList [PDict [(''kind'', PStr ''analyze''), (''assigned_to'', PStr ''sage'')],
               PDict [(''kind'', PStr ''execute_trade''), (''assigned_to'', PStr ''scout'')]],
      p_status = ''accepted'', p_accepted_at = None\<rparr>"

definition pending_proposal :: proposal where
  "pending_proposal =
     \<lparr>p_id = 8, p_agent_id = ''intel'', p_title = ''ETH breakout'',
      p_signal_type = ''breakout'',
      p_proposed_steps = PList [PDict [(''kind'', PStr ''analyze'')]],
      p_status = ''pending'', p_accepted_at = None\<rparr>"

definition broken_proposal :: proposal where
  "broken_proposal =
     \<lparr>p_id = 9, p_agent_id = ''intel'', p_title = ''SOL reversal'',
      p_signal_type = ''reversal'',
      p_proposed_steps = PList [PDict [(''kind'', PStr ''analyze'')], PStr ''execute_trade''],
      p_status = ''accepted'', p_accepted_at = None\<rparr>"

definition proposals_db :: database where
  "proposals_db =
     \<lparr>proposals = [accepted_proposal, pending_proposal, broken_proposal], missions = [],
      steps = [], trigger_rules = [], next_id = 20\<rparr>"

section \<open>Steps of a mission\<close>

text \<open>
  A step is pending while it is queued or running, the condition that the count in
  \<^verbatim>\<open>complete_step\<close> tests. The ids of the steps of a mission, and of its pending
  steps; the step that a ledger call is about.
\<close>

definition is_pending :: "step \<Rightarrow> bool" where
  "is_pending s = (s_status s = ''queued'' \<or> s_status s = ''running'')"

definition mission_steps :: "database \<Rightarrow> uuid \<Rightarrow> uuid set" where
  "mission_steps db mid = {s_id s | s. s \<in> set (steps db) \<and> s_mission_id s = mid}"

definition pending_ids :: "database \<Rightarrow> uuid \<Rightarrow> uuid set" where
  "pending_ids db mid =
     {s_id s | s. s \<in> set (steps db) \<and> s_mission_id s = mid \<and> is_pending s}"

fun call_step :: "ledger_call \<Rightarrow> uuid" where
  "call_step (Claim step_id assigned_to now) = step_id"
| "call_step (Complete step_id result_data err now) = step_id"

fun is_complete :: "ledger_call \<Rightarrow> bool" where
  "is_complete (Claim step_id assigned_to now) = False"
| "is_complete (Complete step_id result_data err now) = True"

text \<open>A mission whose two steps are both running.\<close>

definition second_running_step :: step where
  "second_running_step =
     \<lparr>s_id = 12, s_mission_id = 1, s_kind = ''analyze'', s_payload = PDict [],
      s_assigned_to = Some ''sage'', s_status = ''running'', s_timeout_at = Some 1000,
      s_result = None, s_error = None, s_created_at = 2, s_started_at = Some 6,
      s_completed_at = None\<rparr>"

definition two_step_db :: database where
  "two_step_db =
     \<lparr>proposals = [], missions = [example_mission],
      steps = [running_step, second_running_step], trigger_rules = [], next_id = 13\<rparr>"

section \<open>Properties of the condition checker\<close>

lemma check_ops_True_iff:
  "check_ops x ops = Inr True \<longleftrightarrow> list_all (\<lambda>(opr, v). op_passes opr x v) ops"
proof (induction ops)
  case Nil
  show ?case by simp
next
  case (Cons p ops)
  obtain opr v where p: "p = (opr, v)" by (cases p)
  show ?case
    using Cons.IH
    by (cases "py_cmp x v")
       (auto simp: p op_passes_def py_le_def py_ge_def py_ne_def)
qed

lemma check_ops_orderable:
  "list_all (\<lambda>(opr, v). op_orderable opr x v) ops \<Longrightarrow>
   check_ops x ops = Inr (list_all (\<lambda>(opr, v). op_passes opr x v) ops)"
proof (induction ops)
  case Nil
  show ?case by simp
next
  case (Cons p ops)
  obtain opr v where p: "p = (opr, v)" by (cases p)
  show ?case
    using Cons
    by (cases "py_cmp x v")
       (auto simp: p op_passes_def op_orderable_def py_le_def py_ge_def py_ne_def)
qed

lemma check_ops_error:
  "check_ops x ops = Inl e \<Longrightarrow>
   e = TypeError \<and> \<not> list_all (\<lambda>(opr, v). op_orderable opr x v) ops"
proof (induction ops)
  case Nil
  then show ?case by simp
next
  case (Cons p ops)
  obtain opr v where p: "p = (opr, v)" by (cases p)
  show ?case
    using Cons
    by (cases "py_cmp x v")
       (auto simp: p op_orderable_def py_le_def py_ge_def split: if_splits)
qed

lemma check_conditions_True_iff:
  "check_conditions ev conds = Inr True \<longleftrightarrow> matches ev conds"
proof (induction conds)
  case Nil
  show ?case by (simp add: matches_def)
next
  case (Cons p conds)
  obtain key c where p: "p = (key, c)" by (cases p)
  have IH: "check_conditions ev conds = Inr True \<longleftrightarrow> matches ev conds"
    by (rule Cons.IH)
  show ?case
  proof (cases "ev key")
    case None
    then show ?thesis using IH by (simp add: p matches_def)
  next
    case (Some x)
    show ?thesis
    proof (cases "\<exists>ops. c = PDict ops")
      case True
      then obtain ops where c: "c = PDict ops" by blast
      show ?thesis
        using IH check_ops_True_iff [of x ops]
        by (cases "check_ops x ops")
           (auto simp: p c Some matches_def cond_passes_def)
    next
      case False
      then show ?thesis
        using IH
        by (cases c) (auto simp: p Some matches_def cond_passes_def py_ne_def)
    qed
  qed
qed

lemma check_conditions_orderable:
  "orderable ev conds \<Longrightarrow> check_conditions ev conds = Inr (matches ev conds)"
proof (induction conds)
  case Nil
  show ?case by (simp add: matches_def)
next
  case (Cons p conds)
  obtain key c where p: "p = (key, c)" by (cases p)
  from Cons.prems have tl: "orderable ev conds"
    by (simp add: orderable_def)
  have IH: "check_conditions ev conds = Inr (matches ev conds)"
    by (rule Cons.IH [OF tl])
  show ?case
  proof (cases "ev key")
    case None
    then show ?thesis using IH by (simp add: p matches_def)
  next
    case (Some x)
    show ?thesis
    proof (cases "\<exists>ops. c = PDict ops")
      case True
      then obtain ops where c: "c = PDict ops" by blast
      from Cons.prems have "list_all (\<lambda>(opr, v). op_orderable opr x v) ops"
        by (simp add: orderable_def p c Some)
      then have "check_ops x ops = Inr (list_all (\<lambda>(opr, v). op_passes opr x v) ops)"
        by (rule check_ops_orderable)
      then show ?thesis
        using IH by (auto simp: p c Some matches_def cond_passes_def)
    next
      case False
      then show ?thesis
        using IH
        by (cases c) (auto simp: p Some matches_def cond_passes_def py_ne_def)
    qed
  qed
qed

lemma check_conditions_error:
  "check_conditions ev conds = Inl e \<Longrightarrow> e = TypeError \<and> \<not> orderable ev conds"
proof (induction conds)
  case Nil
  then show ?case by simp
next
  case (Cons p conds)
  obtain key c where p: "p = (key, c)" by (cases p)
  show ?case
  proof (cases "ev key")
    case None
    with Cons show ?thesis by (simp add: p orderable_def)
  next
    case (Some x)
    show ?thesis
    proof (cases "\<exists>ops. c = PDict ops")
      case True
      then obtain ops where c: "c = PDict ops" by blast
      show ?thesis
      proof (cases "check_ops x ops")
        case (Inl e')
        with Cons.prems have "e' = e" by (simp add: p c Some)
        with Inl check_ops_error [of x ops e] show ?thesis
          by (simp add: orderable_def p c Some)
      next
        case (Inr b)
        with Cons.prems have "check_conditions ev conds = Inl e"
          by (simp add: p c Some split: if_splits)
        from Cons.IH [OF this] show ?thesis
          by (simp add: orderable_def)
      qed
    next
      case False
      with Cons.prems have "check_conditions ev conds = Inl e"
        by (cases c) (simp_all add: p Some split: if_splits)
      from Cons.IH [OF this] show ?thesis
        by (simp add: orderable_def)
    qed
  qed
qed

lemma check_conditions_skip:
  "ev key = None \<Longrightarrow>
   check_conditions ev (xs @ (key, c) # ys) = check_conditions ev (xs @ ys)"
proof (induction xs)
  case Nil
  then show ?case by simp
next
  case (Cons p xs)
  obtain k' c' where p: "p = (k', c')" by (cases p)
  from Cons have "check_conditions ev (xs @ (key, c) # ys) = check_conditions ev (xs @ ys)"
    by simp
  then show ?case
    by (simp add: p split: option.split pyval.split sum.split)
qed

lemma num_cmp_Unord: "num_cmp a b = Unord \<Longrightarrow> a = NaN \<or> b = NaN"
  by (induction a b rule: num_cmp.induct) (simp_all split: if_splits)

lemma str_cmp_not_Unord: "str_cmp s t \<noteq> Unord"
  by (induction s t rule: str_cmp.induct) simp_all

lemma num_of_NaN: "num_of b = Some NaN \<Longrightarrow> contains_nan b"
  by (cases b) (simp_all split: if_splits)

lemma num_side_Unord:
  assumes "(case num_of b of Some y \<Rightarrow> Some (num_cmp a y) | None \<Rightarrow> None) = Some Unord"
  shows "a = NaN \<or> contains_nan b"
proof -
  from assms obtain y where y: "num_of b = Some y" and c: "num_cmp a y = Unord"
    by (cases "num_of b") simp_all
  from num_cmp_Unord [OF c] y show ?thesis
    by (auto dest: num_of_NaN)
qed

lemma py_cmp_Unord:
  "py_cmp x v = Some Unord \<Longrightarrow> contains_nan x \<or> contains_nan v"
  "list_cmp xs vs = Some Unord \<Longrightarrow> list_ex contains_nan xs \<or> list_ex contains_nan vs"
proof (induction x v and xs vs rule: py_cmp_list_cmp.induct)
  case (1 s b)
  then show ?case by (cases b) (simp_all add: str_cmp_not_Unord)
next
  case (2 xs b)
  then show ?case by (cases b) simp_all
next
  case (5 p b)
  then have "(case num_of b of Some y \<Rightarrow> Some (num_cmp (Fin (if p then 1 else 0)) y)
              | None \<Rightarrow> None) = Some Unord"
    by (simp only: py_cmp.simps)
  from num_side_Unord [OF this] show ?case by simp
next
  case (6 i b)
  then have "(case num_of b of Some y \<Rightarrow> Some (num_cmp (Fin (of_int i)) y)
              | None \<Rightarrow> None) = Some Unord"
    by (simp only: py_cmp.simps)
  from num_side_Unord [OF this] show ?case by simp
next
  case (7 r b)
  then have "(case num_of b of Some y \<Rightarrow> Some (num_cmp r y) | None \<Rightarrow> None) = Some Unord"
    by (simp only: py_cmp.simps)
  from num_side_Unord [OF this] show ?case by simp
next
  case (11 x xs y ys)
  then show ?case by (auto split: if_splits)
qed simp_all

lemma not_le_is_gt:
  assumes "\<not> contains_nan x" and "\<not> contains_nan v"
  shows "py_le x v = Inr False \<longleftrightarrow> py_gt x v = Inr True"
    and "py_ge x v = Inr False \<longleftrightarrow> py_lt x v = Inr True"
proof -
  from assms have n: "py_cmp x v \<noteq> Some Unord"
    using py_cmp_Unord(1) [of x v] by blast
  show "py_le x v = Inr False \<longleftrightarrow> py_gt x v = Inr True"
  proof (cases "py_cmp x v")
    case None
    then show ?thesis by (simp add: py_le_def py_gt_def)
  next
    case (Some c)
    with n show ?thesis by (cases c) (simp_all add: py_le_def py_gt_def)
  qed
  show "py_ge x v = Inr False \<longleftrightarrow> py_lt x v = Inr True"
  proof (cases "py_cmp x v")
    case None
    then show ?thesis by (simp add: py_ge_def py_lt_def)
  next
    case (Some c)
    with n show ?thesis by (cases c) (simp_all add: py_ge_def py_lt_def)
  qed
qed

text \<open>
  C7, as amended. The condition matcher returns true exactly when every operator and
  literal of every key that the event has passes: \<^verbatim>\<open>$gt\<close> passes unless the event
  value is less than or equal to the condition value, \<^verbatim>\<open>$lt\<close> unless it is greater
  than or equal, \<^verbatim>\<open>$eq\<close> and a plain literal when it is equal. When the values that
  \<^verbatim>\<open>$gt\<close> and \<^verbatim>\<open>$lt\<close> compare are of kinds that Python orders, the matcher returns,
  and any failing operator makes it return false; the only exception it raises is the
  \<^verbatim>\<open>TypeError\<close> of such a comparison between kinds that Python does not order. For
  values without a NaN, \<^verbatim>\<open>$gt\<close> passes exactly when the event value is strictly
  greater and \<^verbatim>\<open>$lt\<close> exactly when it is strictly lesser.
\<close>

theorem check_conditions_matches:
  "(check_conditions ev conds = Inr True \<longleftrightarrow> matches ev conds) \<and>
   (orderable ev conds \<longrightarrow> check_conditions ev conds = Inr (matches ev conds)) \<and>
   (check_conditions ev conds = Inl e \<longrightarrow> e = TypeError \<and> \<not> orderable ev conds) \<and>
   (\<not> contains_nan x \<and> \<not> contains_nan v \<longrightarrow>
      (op_passes ''$gt'' x v \<longleftrightarrow> py_gt x v = Inr True) \<and>
      (op_passes ''$lt'' x v \<longleftrightarrow> py_lt x v = Inr True)) \<and>
   (op_passes ''$eq'' x v \<longleftrightarrow> py_eq x v)"
proof -
  have "\<not> contains_nan x \<and> \<not> contains_nan v \<longrightarrow>
      (op_passes ''$gt'' x v \<longleftrightarrow> py_gt x v = Inr True) \<and>
      (op_passes ''$lt'' x v \<longleftrightarrow> py_lt x v = Inr True)"
    using not_le_is_gt [of x v] by (simp add: op_passes_def)
  moreover have "op_passes ''$eq'' x v \<longleftrightarrow> py_eq x v"
    by (simp add: op_passes_def)
  ultimately show ?thesis
    using check_conditions_True_iff [of ev conds] check_conditions_orderable [of ev conds]
      check_conditions_error [of ev conds e]
    by blast
qed

theorem check_conditions_matches_witness:
  "check_conditions [''price'' \<mapsto> PInt 100] [(''price'', PDict [(''$gt'', PInt 50)])]
     = Inr True \<and>
   check_conditions [''price'' \<mapsto> PInt 40] [(''price'', PDict [(''$gt'', PInt 50)])]
     = Inr False \<and>
   check_conditions [''price'' \<mapsto> PInt 50] [(''price'', PDict [(''$gt'', PInt 50)])]
     = Inr False \<and>
   check_conditions [''price'' \<mapsto> PInt 40] [(''price'', PDict [(''$lt'', PInt 50)])]
     = Inr True \<and>
   check_conditions [''price'' \<mapsto> PInt 50] [(''price'', PDict [(''$lt'', PInt 50)])]
     = Inr False \<and>
   check_conditions [''price'' \<mapsto> PInt 50] [(''price'', PDict [(''$eq'', PFloat (Fin 50))])]
     = Inr True \<and>
   check_conditions [''price'' \<mapsto> PInt 50] [(''price'', PDict [(''$eq'', PInt 51)])]
     = Inr False \<and>
   check_conditions [''symbol'' \<mapsto> PStr ''BTC''] [(''symbol'', PStr ''BTC'')] = Inr True \<and>
   check_conditions [''symbol'' \<mapsto> PStr ''BTC''] [(''symbol'', PStr ''ETH'')] = Inr False \<and>
   check_conditions [''price'' \<mapsto> PInt 100, ''symbol'' \<mapsto> PStr ''BTC'']
     [(''price'', PDict [(''$gt'', PInt 50), (''$lt'', PInt 90)]), (''symbol'', PStr ''BTC'')]
     = Inr False \<and>
   (op_passes ''$gt'' (PInt 100) (PInt 50) \<longleftrightarrow> py_gt (PInt 100) (PInt 50) = Inr True)"
proof -
  note defs = matches_def cond_passes_def op_passes_def orderable_def op_orderable_def
    py_le_def py_ge_def
  have w1: "check_conditions [''price'' \<mapsto> PInt 100] [(''price'', PDict [(''$gt'', PInt 50)])]
     = Inr True"
    using check_conditions_matches [of "[''price'' \<mapsto> PInt 100]"
        "[(''price'', PDict [(''$gt'', PInt 50)])]" TypeError PNone PNone]
    by (simp add: defs)
  have w2: "check_conditions [''price'' \<mapsto> PInt 40] [(''price'', PDict [(''$gt'', PInt 50)])]
     = Inr False"
    using check_conditions_matches [of "[''price'' \<mapsto> PInt 40]"
        "[(''price'', PDict [(''$gt'', PInt 50)])]" TypeError PNone PNone]
    by (simp add: defs)
  have w3: "check_conditions [''price'' \<mapsto> PInt 50] [(''price'', PDict [(''$gt'', PInt 50)])]
     = Inr False"
    using check_conditions_matches [of "[''price'' \<mapsto> PInt 50]"
        "[(''price'', PDict [(''$gt'', PInt 50)])]" TypeError PNone PNone]
    by (simp add: defs)
  have w4: "check_conditions [''price'' \<mapsto> PInt 40] [(''price'', PDict [(''$lt'', PInt 50)])]
     = Inr True"
    using check_conditions_matches [of "[''price'' \<mapsto> PInt 40]"
        "[(''price'', PDict [(''$lt'', PInt 50)])]" TypeError PNone PNone]
    by (simp add: defs)
  have w5: "check_conditions [''price'' \<mapsto> PInt 50] [(''price'', PDict [(''$lt'', PInt 50)])]
     = Inr False"
    using check_conditions_matches [of "[''price'' \<mapsto> PInt 50]"
        "[(''price'', PDict [(''$lt'', PInt 50)])]" TypeError PNone PNone]
    by (simp add: defs)
  have w6: "check_conditions [''price'' \<mapsto> PInt 50]
      [(''price'', PDict [(''$eq'', PFloat (Fin 50))])] = Inr True"
    using check_conditions_matches [of "[''price'' \<mapsto> PInt 50]"
        "[(''price'', PDict [(''$eq'', PFloat (Fin 50))])]" TypeError PNone PNone]
    by (simp add: defs)
  have w7: "check_conditions [''price'' \<mapsto> PInt 50] [(''price'', PDict [(''$eq'', PInt 51)])]
     = Inr False"
    using check_conditions_matches [of "[''price'' \<mapsto> PInt 50]"
        "[(''price'', PDict [(''$eq'', PInt 51)])]" TypeError PNone PNone]
    by (simp add: defs)
  have w8: "check_conditions [''symbol'' \<mapsto> PStr ''BTC''] [(''symbol'', PStr ''BTC'')]
     = Inr True"
    using check_conditions_matches [of "[''symbol'' \<mapsto> PStr ''BTC'']"
        "[(''symbol'', PStr ''BTC'')]" TypeError PNone PNone]
    by (simp add: defs)
  have w9: "check_conditions [''symbol'' \<mapsto> PStr ''BTC''] [(''symbol'', PStr ''ETH'')]
     = Inr False"
    using check_conditions_matches [of "[''symbol'' \<mapsto> PStr ''BTC'']"
        "[(''symbol'', PStr ''ETH'')]" TypeError PNone PNone]
    by (simp add: defs)
  have w10: "check_conditions [''price'' \<mapsto> PInt 100, ''symbol'' \<mapsto> PStr ''BTC'']
     [(''price'', PDict [(''$gt'', PInt 50), (''$lt'', PInt 90)]), (''symbol'', PStr ''BTC'')]
     = Inr False"
    using check_conditions_matches
      [of "[''price'' \<mapsto> PInt 100, ''symbol'' \<mapsto> PStr ''BTC'']"
        "[(''price'', PDict [(''$gt'', PInt 50), (''$lt'', PInt 90)]),
          (''symbol'', PStr ''BTC'')]" TypeError PNone PNone]
    by (simp add: defs)
  have w11: "op_passes ''$gt'' (PInt 100) (PInt 50) \<longleftrightarrow> py_gt (PInt 100) (PInt 50) = Inr True"
    using check_conditions_matches [of Map.empty "[]" TypeError "PInt 100" "PInt 50"]
    by simp
  from w1 w2 w3 w4 w5 w6 w7 w8 w9 w10 w11 show ?thesis by blast
qed

text \<open>
  C7 as stated fails. An event value that is a NaN is neither strictly greater nor
  strictly lesser than 50, yet the matcher returns true for \<^verbatim>\<open>{"$gt": 50, "$lt": 50}\<close>:
  the code tests \<^verbatim>\<open><=\<close> and \<^verbatim>\<open>>=\<close>, and both are false on a NaN. And for the
  string \<^verbatim>\<open>'abc'\<close> against \<^verbatim>\<open>{"$gt": 50}\<close> the operator does not hold, yet the matcher
  does not return false: the comparison raises \<^verbatim>\<open>TypeError\<close>.
\<close>

theorem check_conditions_nan_counterexample:
  "check_conditions [''price'' \<mapsto> PFloat NaN]
     [(''price'', PDict [(''$gt'', PInt 50), (''$lt'', PInt 50)])] = Inr True \<and>
   py_gt (PFloat NaN) (PInt 50) = Inr False \<and>
   py_lt (PFloat NaN) (PInt 50) = Inr False \<and>
   check_conditions [''price'' \<mapsto> PStr ''abc''] [(''price'', PDict [(''$gt'', PInt 50)])]
     = Inl TypeError"
  by (simp add: py_le_def py_ge_def py_gt_def py_lt_def)

text \<open>
  C8. A key of the condition tree that the event record does not have is skipped: the
  result is that of the condition tree without this key. So the event \<^verbatim>\<open>{"a": 1}\<close>
  matches the condition \<^verbatim>\<open>{"b": 5}\<close>.
\<close>

theorem check_conditions_missing_key:
  "event_data key = None \<Longrightarrow>
   check_conditions event_data (before @ (key, condition) # after)
     = check_conditions event_data (before @ after)"
  by (rule check_conditions_skip)

theorem check_conditions_missing_key_witness:
  "[''a'' \<mapsto> PInt 1] ''b'' = None \<and>
   check_conditions [''a'' \<mapsto> PInt 1] [(''b'', PInt 5)] = Inr True"
  using check_conditions_missing_key [of "[''a'' \<mapsto> PInt 1]" "''b''" "[]" "PInt 5" "[]"]
  by simp

section \<open>Properties of the step ledger\<close>

lemma completed_status_cases:
  "completed_status e = ''succeeded'' \<or> completed_status e = ''failed''"
  by (simp add: completed_status_def split: option.split)

lemma completed_status_not_queued [simp]: "completed_status e \<noteq> ''queued''"
  by (simp add: completed_status_def split: option.split)

lemma completed_status_not_running [simp]: "completed_status e \<noteq> ''running''"
  by (simp add: completed_status_def split: option.split)

lemma s_status_claim_row [simp]: "s_status (claim_row a t x) = ''running''"
  and s_id_claim_row [simp]: "s_id (claim_row a t x) = s_id x"
  and s_mission_id_claim_row [simp]: "s_mission_id (claim_row a t x) = s_mission_id x"
  by (simp_all add: claim_row_def)

lemma s_status_complete_row [simp]: "s_status (complete_row r e t x) = completed_status e"
  and s_id_complete_row [simp]: "s_id (complete_row r e t x) = s_id x"
  and s_mission_id_complete_row [simp]: "s_mission_id (complete_row r e t x) = s_mission_id x"
  by (simp_all add: complete_row_def)

lemma claim_step_result:
  "snd (claim_step db sid a t) \<longleftrightarrow> (\<exists>x \<in> set (steps db). s_id x = sid \<and> s_status x = ''queued'')"
  by (simp add: claim_step_def Let_def filter_empty_conv)

lemma claim_step_steps:
  "steps (fst (claim_step db sid a t)) =
     map (\<lambda>x. if s_id x = sid \<and> s_status x = ''queued'' then claim_row a t x else x) (steps db)"
  by (simp add: claim_step_def Let_def)

lemma claim_step_noop:
  assumes "\<not> snd (claim_step db sid a t)"
  shows "fst (claim_step db sid a t) = db"
proof -
  from assms have "\<forall>x \<in> set (steps db). \<not> (s_id x = sid \<and> s_status x = ''queued'')"
    by (simp add: claim_step_result)
  then have "map (\<lambda>x. if s_id x = sid \<and> s_status x = ''queued'' then claim_row a t x else x)
               (steps db) = steps db"
    by (intro map_idI) auto
  then show ?thesis by (simp add: claim_step_def Let_def)
qed

lemma complete_step_steps:
  "steps (fst (complete_step db sid r e t)) =
     map (\<lambda>x. if s_id x = sid \<and> s_status x = ''running'' then complete_row r e t x else x)
       (steps db)"
proof (cases "filter (\<lambda>s. s_id s = sid \<and> s_status s = ''running'') (steps db)")
  case Nil
  then have "\<forall>x \<in> set (steps db). \<not> (s_id x = sid \<and> s_status x = ''running'')"
    by (simp add: filter_empty_conv)
  then have "map (\<lambda>x. if s_id x = sid \<and> s_status x = ''running'' then complete_row r e t x else x)
               (steps db) = steps db"
    by (intro map_idI) auto
  then show ?thesis using Nil by (simp add: complete_step_def Let_def)
next
  case (Cons y ys)
  then show ?thesis by (simp add: complete_step_def Let_def)
qed

lemma claim_step_no_queued: "no_queued sid (fst (claim_step db sid a t))"
  unfolding no_queued_def claim_step_steps
proof
  fix y
  assume "y \<in> set (map (\<lambda>x. if s_id x = sid \<and> s_status x = ''queued'' then claim_row a t x else x) (steps db))"
  then obtain x where x: "x \<in> set (steps db)"
    and y: "y = (if s_id x = sid \<and> s_status x = ''queued'' then claim_row a t x else x)"
    by (auto simp only: set_map image_iff)
  show "s_id y = sid \<longrightarrow> s_status y \<noteq> ''queued''"
    by (cases "s_id x = sid \<and> s_status x = ''queued''") (simp_all add: y)
qed

lemma claim_step_keeps_no_queued:
  assumes "no_queued sid db"
  shows "no_queued sid (fst (claim_step db sid' a t))"
  unfolding no_queued_def claim_step_steps
proof
  fix y
  assume "y \<in> set (map (\<lambda>x. if s_id x = sid' \<and> s_status x = ''queued'' then claim_row a t x else x) (steps db))"
  then obtain x where x: "x \<in> set (steps db)"
    and y: "y = (if s_id x = sid' \<and> s_status x = ''queued'' then claim_row a t x else x)"
    by (auto simp only: set_map image_iff)
  from assms x have "s_id x = sid \<longrightarrow> s_status x \<noteq> ''queued''"
    by (simp add: no_queued_def)
  then show "s_id y = sid \<longrightarrow> s_status y \<noteq> ''queued''"
    by (cases "s_id x = sid' \<and> s_status x = ''queued''") (simp_all add: y)
qed

lemma complete_step_keeps_no_queued:
  assumes "no_queued sid db"
  shows "no_queued sid (fst (complete_step db sid' r e t))"
  unfolding no_queued_def complete_step_steps
proof
  fix y
  assume "y \<in> set (map (\<lambda>x. if s_id x = sid' \<and> s_status x = ''running'' then complete_row r e t x else x) (steps db))"
  then obtain x where x: "x \<in> set (steps db)"
    and y: "y = (if s_id x = sid' \<and> s_status x = ''running'' then complete_row r e t x else x)"
    by (auto simp only: set_map image_iff)
  from assms x have "s_id x = sid \<longrightarrow> s_status x \<noteq> ''queued''"
    by (simp add: no_queued_def)
  then show "s_id y = sid \<longrightarrow> s_status y \<noteq> ''queued''"
    by (cases "s_id x = sid' \<and> s_status x = ''running''") (simp_all add: y)
qed

lemma run_call_keeps_no_queued:
  "no_queued sid db \<Longrightarrow> no_queued sid (fst (run_call db c))"
  by (cases c) (simp_all add: claim_step_keeps_no_queued complete_step_keeps_no_queued)

lemma fst_run_calls_Cons: "fst (run_calls db (c # cs)) = fst (run_calls (fst (run_call db c)) cs)"
  by (simp split: prod.splits)

lemma run_calls_keeps_no_queued:
  "no_queued sid db \<Longrightarrow> no_queued sid (fst (run_calls db cs))"
proof (induction cs arbitrary: db)
  case Nil
  then show ?case by simp
next
  case (Cons c cs)
  from Cons.prems have "no_queued sid (fst (run_call db c))"
    by (rule run_call_keeps_no_queued)
  then have "no_queued sid (fst (run_calls (fst (run_call db c)) cs))"
    by (rule Cons.IH)
  then show ?case by (simp only: fst_run_calls_Cons)
qed

lemma no_queued_claim_False: "no_queued sid db \<Longrightarrow> \<not> snd (claim_step db sid b t)"
  by (simp add: claim_step_result no_queued_def)

lemma claim_step_fst:
  "fst (claim_step db sid a t) =
     db\<lparr>steps := map (\<lambda>x. if s_id x = sid \<and> s_status x = ''queued''
                           then x\<lparr>s_status := ''running'', s_assigned_to := Some a,
                                  s_started_at := Some t\<rparr>
                           else x) (steps db)\<rparr>"
  by (simp add: claim_step_def Let_def claim_row_def)

lemma complete_step_result:
  "snd (complete_step db sid r e t) \<longleftrightarrow>
     (\<exists>x \<in> set (steps db). s_id x = sid \<and> s_status x = ''running'')"
proof (cases "filter (\<lambda>s. s_id s = sid \<and> s_status s = ''running'') (steps db)")
  case Nil
  then show ?thesis
    by (simp add: complete_step_def Let_def filter_empty_conv)
next
  case (Cons y ys)
  then have "filter (\<lambda>s. s_id s = sid \<and> s_status s = ''running'') (steps db) \<noteq> []"
    by simp
  then have "\<exists>x \<in> set (steps db). s_id x = sid \<and> s_status x = ''running''"
    by (simp add: filter_empty_conv)
  then show ?thesis using Cons
    by (simp add: complete_step_def Let_def)
qed

lemma complete_step_noop:
  assumes "\<not> snd (complete_step db sid r e t)"
  shows "fst (complete_step db sid r e t) = db"
proof -
  from assms have "filter (\<lambda>s. s_id s = sid \<and> s_status s = ''running'') (steps db) = []"
    by (simp add: complete_step_result filter_empty_conv)
  then show ?thesis by (simp add: complete_step_def Let_def)
qed

lemma complete_step_no_running: "no_running sid (fst (complete_step db sid r e t))"
  unfolding no_running_def complete_step_steps
proof
  fix y
  assume "y \<in> set (map (\<lambda>x. if s_id x = sid \<and> s_status x = ''running'' then complete_row r e t x else x) (steps db))"
  then obtain x where x: "x \<in> set (steps db)"
    and y: "y = (if s_id x = sid \<and> s_status x = ''running'' then complete_row r e t x else x)"
    by (auto simp only: set_map image_iff)
  show "s_id y = sid \<longrightarrow> s_status y \<noteq> ''running''"
    by (cases "s_id x = sid \<and> s_status x = ''running''") (simp_all add: y)
qed

lemma no_running_complete_False:
  "no_running sid db \<Longrightarrow> \<not> snd (complete_step db sid r e t)"
  by (simp add: complete_step_result no_running_def)

lemma complete_row_fields:
  "complete_row r e t x =
     x\<lparr>s_status := (if e = None \<or> e = Some [] then ''succeeded'' else ''failed''),
       s_result := (case r of None \<Rightarrow> None | Some kvs \<Rightarrow> if kvs = [] then None else Some (PDict kvs)),
       s_error := e, s_completed_at := Some t\<rparr>"
  by (cases e) (simp_all add: complete_row_def completed_status_def result_json_def)

text \<open>
  C2. \<^verbatim>\<open>claim_step\<close> returns true exactly when a row of the step id is queued; it
  moves that row to running with the assignee and the start time and changes nothing
  else; it returns false and leaves the storage state as it was when the step is not
  queued or does not exist. Once a claim of a step has returned true, a later claim of
  the same step by any caller returns false, whatever claim and complete calls (of this
  or other steps) run in between.
\<close>

theorem claim_step_exclusive:
  "(snd (claim_step db sid a t) \<longleftrightarrow>
      (\<exists>x \<in> set (steps db). s_id x = sid \<and> s_status x = ''queued'')) \<and>
   fst (claim_step db sid a t) =
     db\<lparr>steps := map (\<lambda>x. if s_id x = sid \<and> s_status x = ''queued''
                           then x\<lparr>s_status := ''running'', s_assigned_to := Some a,
                                  s_started_at := Some t\<rparr>
                           else x) (steps db)\<rparr> \<and>
   (\<not> snd (claim_step db sid a t) \<longrightarrow> fst (claim_step db sid a t) = db) \<and>
   (snd (claim_step db sid a t) \<longrightarrow>
      \<not> snd (claim_step (fst (run_calls (fst (claim_step db sid a t)) calls)) sid b t'))"
proof -
  have "no_queued sid (fst (run_calls (fst (claim_step db sid a t)) calls))"
    by (rule run_calls_keeps_no_queued [OF claim_step_no_queued])
  then have "\<not> snd (claim_step (fst (run_calls (fst (claim_step db sid a t)) calls)) sid b t')"
    by (rule no_queued_claim_False)
  then show ?thesis
    using claim_step_result [of db sid a t] claim_step_fst [of db sid a t]
      claim_step_noop [of db sid a t]
    by blast
qed

theorem claim_step_exclusive_witness:
  "snd (claim_step example_db 10 ''sage'' 5) \<and>
   \<not> snd (claim_step
     (fst (run_calls (fst (claim_step example_db 10 ''sage'' 5))
        [Claim 11 ''scout'' 6, Complete 11 None None 7])) 10 ''scout'' 9) \<and>
   \<not> snd (claim_step example_db 11 ''sage'' 5) \<and>
   fst (claim_step example_db 11 ''sage'' 5) = example_db"
proof -
  have q: "snd (claim_step example_db 10 ''sage'' 5)"
    by (simp add: claim_step_def example_db_def queued_step_def running_step_def)
  have r: "\<not> snd (claim_step example_db 11 ''sage'' 5)"
    by (simp add: claim_step_def example_db_def queued_step_def running_step_def)
  show ?thesis
    using q r
      claim_step_exclusive [of example_db 10 "''sage''" 5
        "[Claim 11 ''scout'' 6, Complete 11 None None 7]" "''scout''" 9]
      claim_step_exclusive [of example_db 11 "''sage''" 5 "[]" "''sage''" 5]
    by blast
qed

lemma complete_step_steps_fields:
  "steps (fst (complete_step db sid r e t)) =
     map (\<lambda>x. if s_id x = sid \<and> s_status x = ''running''
               then x\<lparr>s_status := (if e = None \<or> e = Some [] then ''succeeded'' else ''failed''),
                      s_result := (case r of None \<Rightarrow> None
                                   | Some kvs \<Rightarrow> if kvs = [] then None else Some (PDict kvs)),
                      s_error := e, s_completed_at := Some t\<rparr>
               else x) (steps db)"
  by (simp only: complete_step_steps complete_row_fields)

text \<open>
  C3, as amended. \<^verbatim>\<open>complete_step\<close> returns true exactly when a row of the step id is
  running. It moves that row to failed when the error is a non-empty message and to
  succeeded when the error is absent or the empty string; it records the error as given,
  the completion time, and the result (NULL for an absent or empty mapping). It returns
  false and leaves the storage state as it was when the step is not running; a second
  call on the same step returns false.
\<close>

theorem complete_step_transition:
  "(snd (complete_step db sid r e t) \<longleftrightarrow>
      (\<exists>x \<in> set (steps db). s_id x = sid \<and> s_status x = ''running'')) \<and>
   steps (fst (complete_step db sid r e t)) =
     map (\<lambda>x. if s_id x = sid \<and> s_status x = ''running''
               then x\<lparr>s_status := (if e = None \<or> e = Some [] then ''succeeded'' else ''failed''),
                      s_result := (case r of None \<Rightarrow> None
                                   | Some kvs \<Rightarrow> if kvs = [] then None else Some (PDict kvs)),
                      s_error := e, s_completed_at := Some t\<rparr>
               else x) (steps db) \<and>
   (\<not> snd (complete_step db sid r e t) \<longrightarrow> fst (complete_step db sid r e t) = db) \<and>
   \<not> snd (complete_step (fst (complete_step db sid r e t)) sid r' e' t')"
proof -
  have "\<not> snd (complete_step (fst (complete_step db sid r e t)) sid r' e' t')"
    by (rule no_running_complete_False [OF complete_step_no_running])
  then show ?thesis
    using complete_step_result [of db sid r e t] complete_step_steps_fields [of db sid r e t]
      complete_step_noop [of db sid r e t]
    by blast
qed

theorem complete_step_transition_witness:
  "snd (complete_step example_db 11 (Some [(''filled'', PBool True)]) None 20) \<and>
   map s_status (steps (fst (complete_step example_db 11 (Some [(''filled'', PBool True)]) None 20)))
     = [''queued'', ''succeeded''] \<and>
   map s_result (steps (fst (complete_step example_db 11 (Some [(''filled'', PBool True)]) None 20)))
     = [None, Some (PDict [(''filled'', PBool True)])] \<and>
   map s_status (steps (fst (complete_step example_db 11 None (Some ''timeout'') 20)))
     = [''queued'', ''failed''] \<and>
   \<not> snd (complete_step example_db 10 None None 20) \<and>
   fst (complete_step example_db 10 None None 20) = example_db \<and>
   \<not> snd (complete_step
      (fst (complete_step example_db 11 (Some [(''filled'', PBool True)]) None 20)) 11 None None 21)"
proof -
  have a: "snd (complete_step example_db 11 (Some [(''filled'', PBool True)]) None 20)"
    using complete_step_transition [of example_db 11 "Some [(''filled'', PBool True)]" None 20]
    by (simp add: example_db_def queued_step_def running_step_def)
  have b: "map s_status (steps (fst (complete_step example_db 11
             (Some [(''filled'', PBool True)]) None 20))) = [''queued'', ''succeeded'']"
    using complete_step_transition [of example_db 11 "Some [(''filled'', PBool True)]" None 20]
    by (simp add: example_db_def queued_step_def running_step_def)
  have c: "map s_result (steps (fst (complete_step example_db 11
             (Some [(''filled'', PBool True)]) None 20)))
             = [None, Some (PDict [(''filled'', PBool True)])]"
    using complete_step_transition [of example_db 11 "Some [(''filled'', PBool True)]" None 20]
    by (simp add: example_db_def queued_step_def running_step_def)
  have d: "map s_status (steps (fst (complete_step example_db 11 None (Some ''timeout'') 20)))
             = [''queued'', ''failed'']"
    using complete_step_transition [of example_db 11 None "Some ''timeout''" 20]
    by (simp add: example_db_def queued_step_def running_step_def)
  have e: "\<not> snd (complete_step example_db 10 None None 20)"
    using complete_step_transition [of example_db 10 None None 20]
    by (simp add: example_db_def queued_step_def running_step_def)
  have f: "fst (complete_step example_db 10 None None 20) = example_db"
    using e complete_step_transition [of example_db 10 None None 20] by blast
  have g: "\<not> snd (complete_step
      (fst (complete_step example_db 11 (Some [(''filled'', PBool True)]) None 20)) 11 None None 21)"
    using complete_step_transition [of example_db 11 "Some [(''filled'', PBool True)]" None 20
      None None 21]
    by blast
  show ?thesis using a b c d e f g by blast
qed

text \<open>
  C3 as stated fails: completing a running step with the empty string as error (an
  error that is present) returns true and leaves the step succeeded, not failed, while
  the empty string is written to the error column.
\<close>

theorem complete_step_empty_error_counterexample:
  "snd (complete_step single_step_db 11 None (Some []) 20) \<and>
   map s_status (steps (fst (complete_step single_step_db 11 None (Some []) 20)))
     = [''succeeded''] \<and>
   map s_error (steps (fst (complete_step single_step_db 11 None (Some []) 20)))
     = [Some []]"
  by (simp add: complete_step_result complete_step_steps complete_row_def completed_status_def
      single_step_db_def running_step_def)

lemma complete_row_empty_result:
  "complete_row (Some []) e t = complete_row None e t"
  by (simp add: fun_eq_iff complete_row_def result_json_def)

text \<open>
  C10. Completing a step with an empty mapping as result and no error does exactly what
  completing it with no result does: the running row becomes succeeded with a NULL
  result.
\<close>

theorem complete_step_empty_result:
  "complete_step db sid (Some []) None t = complete_step db sid None None t \<and>
   steps (fst (complete_step db sid (Some []) None t)) =
     map (\<lambda>x. if s_id x = sid \<and> s_status x = ''running''
               then x\<lparr>s_status := ''succeeded'', s_result := None, s_error := None,
                      s_completed_at := Some t\<rparr>
               else x) (steps db)"
proof -
  have "complete_step db sid (Some []) None t = complete_step db sid None None t"
    unfolding complete_step_def complete_row_empty_result by (rule refl)
  moreover have "steps (fst (complete_step db sid (Some []) None t)) =
     map (\<lambda>x. if s_id x = sid \<and> s_status x = ''running''
               then x\<lparr>s_status := ''succeeded'', s_result := None, s_error := None,
                      s_completed_at := Some t\<rparr>
               else x) (steps db)"
    by (simp add: complete_step_steps complete_row_def result_json_def completed_status_def)
  ultimately show ?thesis by blast
qed

theorem complete_step_empty_result_witness:
  "map s_result (steps (fst (complete_step example_db 11 (Some []) None 20))) = [None, None] \<and>
   map s_status (steps (fst (complete_step example_db 11 (Some []) None 20)))
     = [''queued'', ''succeeded''] \<and>
   complete_step example_db 11 (Some []) None 20 = complete_step example_db 11 None None 20"
proof -
  note th = complete_step_empty_result [of example_db 11 20]
  have a: "map s_result (steps (fst (complete_step example_db 11 (Some []) None 20)))
             = [None, None]"
    using conjunct2 [OF th] by (simp add: example_db_def queued_step_def running_step_def)
  have b: "map s_status (steps (fst (complete_step example_db 11 (Some []) None 20)))
             = [''queued'', ''succeeded'']"
    using conjunct2 [OF th] by (simp add: example_db_def queued_step_def running_step_def)
  show ?thesis using a b conjunct1 [OF th] by blast
qed

section \<open>Properties of the claim query and of the trigger registry\<close>

lemma join_missions_member:
  "(s, m) \<in> set (join_missions db) \<Longrightarrow> s \<in> set (steps db)"
  by (auto simp: join_missions_def)

lemma queued_unexpired_iff:
  "queued_unexpired now s \<longleftrightarrow>
     s_status s = ''queued'' \<and> (\<exists>t. s_timeout_at s = Some t \<and> now < t)"
  by (cases "s_timeout_at s") (simp_all add: queued_unexpired_def)

lemma kind_filter_nonempty:
  "kind_filter (Some k) s \<Longrightarrow> k \<noteq> [] \<Longrightarrow> s_kind s = k"
  by (simp add: kind_filter_def)

lemma sorted_take_sort_key:
  "sorted (map f (take n (sort_key f xs)))"
proof -
  have "sorted (take n (map f (sort_key f xs)))"
    by (rule sorted_wrt_take) (rule sorted_sort_key)
  then show ?thesis by (simp only: take_map)
qed

text \<open>
  C5, as amended. With a limit that is not negative, \<^verbatim>\<open>get_queued_steps\<close> returns
  rows; every returned step is a stored step that is queued and whose timeout deadline
  is in the future, and it has the given kind when a non-empty kind is given; the rows
  are in ascending order of creation time and there are at most \<open>limit\<close> of them.
\<close>

theorem get_queued_steps_claimable:
  assumes "0 \<le> limit"
  shows "\<exists>rows. get_queued_steps db kind limit now = Inr rows \<and>
     (\<forall>r \<in> set rows.
        q_step r \<in> set (steps db) \<and>
        s_status (q_step r) = ''queued'' \<and>
        (\<exists>t. s_timeout_at (q_step r) = Some t \<and> now < t) \<and>
        (\<forall>k. kind = Some k \<and> k \<noteq> [] \<longrightarrow> s_kind (q_step r) = k)) \<and>
     sorted (map (\<lambda>r. s_created_at (q_step r)) rows) \<and>
     int (length rows) \<le> limit"
proof -
  define sel where
    "sel = filter (\<lambda>(s, m). queued_unexpired now s \<and> kind_filter kind s) (join_missions db)"
  define picked where "picked = take (nat limit) (sort_key (\<lambda>(s, m). s_created_at s) sel)"
  define rows where
    "rows = map (\<lambda>(s, m). \<lparr>q_step = s, q_mission_title = m_title m,
                            q_created_by = m_created_by m\<rparr>) picked"
  have res: "get_queued_steps db kind limit now = Inr rows"
    using assms by (simp add: get_queued_steps_def Let_def rows_def picked_def sel_def)
  have sub: "set picked \<subseteq> set sel"
    unfolding picked_def using set_take_subset [of "nat limit"]
    by (metis set_sort)
  have each: "q_step r \<in> set (steps db) \<and>
        s_status (q_step r) = ''queued'' \<and>
        (\<exists>t. s_timeout_at (q_step r) = Some t \<and> now < t) \<and>
        (\<forall>k. kind = Some k \<and> k \<noteq> [] \<longrightarrow> s_kind (q_step r) = k)"
    if "r \<in> set rows" for r
  proof -
    from that obtain s m where p: "(s, m) \<in> set picked" and r: "q_step r = s"
      by (auto simp: rows_def)
    from p sub have "(s, m) \<in> set sel" by blast
    then have j: "(s, m) \<in> set (join_missions db)"
      and q: "queued_unexpired now s" and k: "kind_filter kind s"
      by (simp_all add: sel_def)
    from j have "s \<in> set (steps db)" by (rule join_missions_member)
    moreover from q have "s_status s = ''queued'' \<and> (\<exists>t. s_timeout_at s = Some t \<and> now < t)"
      by (simp add: queued_unexpired_iff)
    moreover from k have "\<forall>k'. kind = Some k' \<and> k' \<noteq> [] \<longrightarrow> s_kind s = k'"
      by (auto dest: kind_filter_nonempty)
    ultimately show ?thesis by (simp add: r)
  qed
  have "map (\<lambda>r. s_created_at (q_step r)) rows = map (\<lambda>(s, m). s_created_at s) picked"
    by (simp add: rows_def split_def)
  then have srt: "sorted (map (\<lambda>r. s_created_at (q_step r)) rows)"
    by (simp add: picked_def sorted_take_sort_key)
  have "length rows \<le> nat limit"
    by (simp add: rows_def picked_def)
  with assms have len: "int (length rows) \<le> limit" by linarith
  from res each srt len show ?thesis by blast
qed

theorem get_queued_steps_claimable_witness:
  "(0::int) \<le> 5 \<and>
   get_queued_steps example_db (Some ''analyze'') 5 0 =
     Inr [\<lparr>q_step = queued_step, q_mission_title = ''BTC accumulation signal'',
           q_created_by = ''intel''\<rparr>] \<and>
   get_queued_steps example_db (Some ''execute_trade'') 5 0 = Inr [] \<and>
   get_queued_steps example_db (Some ''analyze'') 5 1000 = Inr []"
proof -
  have v: "get_queued_steps example_db (Some ''analyze'') 5 0 =
     Inr [\<lparr>q_step = queued_step, q_mission_title = ''BTC accumulation signal'',
           q_created_by = ''intel''\<rparr>]"
    by (simp add: get_queued_steps_def join_missions_def queued_unexpired_def kind_filter_def
        example_db_def example_mission_def queued_step_def running_step_def)
  have h: "(0::int) \<le> 5" by simp
  from get_queued_steps_claimable [OF h, of example_db "Some ''execute_trade''" 0]
  obtain rows where r: "get_queued_steps example_db (Some ''execute_trade'') 5 0 = Inr rows"
    and p: "\<forall>r \<in> set rows. q_step r \<in> set (steps example_db) \<and>
              s_kind (q_step r) = ''execute_trade'' \<and> s_status (q_step r) = ''queued''"
    by auto
  have "rows = []"
  proof (cases rows)
    case Nil
    then show ?thesis .
  next
    case (Cons x xs)
    with p have "q_step x \<in> set (steps example_db) \<and>
              s_kind (q_step x) = ''execute_trade'' \<and> s_status (q_step x) = ''queued''"
      by simp
    then show ?thesis
      by (auto simp: example_db_def queued_step_def running_step_def)
  qed
  with r have e: "get_queued_steps example_db (Some ''execute_trade'') 5 0 = Inr []" by simp
  from get_queued_steps_claimable [OF h, of example_db "Some ''analyze''" 1000]
  obtain rows' where r': "get_queued_steps example_db (Some ''analyze'') 5 1000 = Inr rows'"
    and p': "\<forall>r \<in> set rows'. q_step r \<in> set (steps example_db) \<and>
              (\<exists>t. s_timeout_at (q_step r) = Some t \<and> 1000 < t)"
    by auto
  have "rows' = []"
  proof (cases rows')
    case Nil
    then show ?thesis .
  next
    case (Cons x xs)
    with p' have "q_step x \<in> set (steps example_db) \<and>
              (\<exists>t. s_timeout_at (q_step x) = Some t \<and> 1000 < t)"
      by simp
    then show ?thesis
      by (auto simp: example_db_def queued_step_def running_step_def)
  qed
  with r' have x: "get_queued_steps example_db (Some ''analyze'') 5 1000 = Inr []" by simp
  from h v e x show ?thesis by blast
qed

text \<open>
  C5 as stated fails: with the empty string as kind (a kind that is given) the query
  has no kind filter and returns a step whose kind is \<^verbatim>\<open>analyze\<close>.
\<close>

theorem get_queued_steps_empty_kind_counterexample:
  "get_queued_steps example_db (Some []) 5 0 =
     Inr [\<lparr>q_step = queued_step, q_mission_title = ''BTC accumulation signal'',
           q_created_by = ''intel''\<rparr>] \<and>
   s_kind queued_step = ''analyze''"
  by (simp add: get_queued_steps_def join_missions_def queued_unexpired_def kind_filter_def
      example_db_def example_mission_def queued_step_def running_step_def)

lemma conditions_match_orderable:
  "t_conditions tr = PDict conds \<Longrightarrow> orderable ev conds \<Longrightarrow>
   \<exists>b. conditions_match ev tr = Inr b"
  by (simp add: conditions_match_def check_conditions_orderable)

lemma match_triggers_Inr:
  "match_triggers ev trs = Inr out \<Longrightarrow>
   out = filter (\<lambda>tr. conditions_match ev tr = Inr True) trs"
proof (induction trs arbitrary: out)
  case Nil
  then show ?case by simp
next
  case (Cons tr trs)
  from Cons.prems obtain b rest where b: "conditions_match ev tr = Inr b"
    and rest: "match_triggers ev trs = Inr rest"
    and out: "out = (if b then tr # rest else rest)"
    by (auto split: sum.splits)
  from Cons.IH [OF rest] have "rest = filter (\<lambda>tr. conditions_match ev tr = Inr True) trs" .
  then show ?case by (simp add: out b)
qed

lemma match_triggers_total:
  "\<forall>tr \<in> set trs. \<exists>b. conditions_match ev tr = Inr b \<Longrightarrow>
   \<exists>out. match_triggers ev trs = Inr out"
proof (induction trs)
  case Nil
  show ?case by simp
next
  case (Cons tr trs)
  from Cons.prems obtain b where b: "conditions_match ev tr = Inr b" by auto
  from Cons obtain rest where rest: "match_triggers ev trs = Inr rest" by auto
  show ?case by (simp add: b rest)
qed

lemma match_triggers_raises:
  "\<exists>tr \<in> set trs. \<forall>b. conditions_match ev tr \<noteq> Inr b \<Longrightarrow>
   \<exists>err. match_triggers ev trs = Inl err"
proof (induction trs)
  case Nil
  then show ?case by simp
next
  case (Cons tr trs)
  show ?case
  proof (cases "conditions_match ev tr")
    case (Inl err)
    then show ?thesis by simp
  next
    case (Inr b)
    with Cons.prems have "\<exists>tr \<in> set trs. \<forall>b. conditions_match ev tr \<noteq> Inr b"
      by auto
    from Cons.IH [OF this] obtain err where "match_triggers ev trs = Inl err" by blast
    with Inr show ?thesis by simp
  qed
qed

lemma rule_fires_conditions_match:
  "rule_fires now ev tr \<longleftrightarrow>
     t_enabled tr \<and> ev ''event_type'' = Some (PStr (t_trigger_event tr)) \<and>
     off_cooldown now tr \<and> conditions_match ev tr = Inr True"
  by (cases "t_conditions tr")
     (simp_all add: rule_fires_def off_cooldown_def conditions_match_def)

lemma evaluate_triggers_Inr:
  assumes "evaluate_triggers db ev now = Inr fired"
  shows "fired = filter (rule_fires now ev) (trigger_rules db)"
proof (cases "ev ''event_type''")
  case None
  then have "filter (rule_fires now ev) (trigger_rules db) = []"
    by (simp add: rule_fires_def filter_empty_conv)
  with assms None show ?thesis by (simp add: evaluate_triggers_def)
next
  case (Some v)
  show ?thesis
  proof (cases "\<exists>e. v = PStr e")
    case True
    then obtain e where v: "v = PStr e" by blast
    from assms have m: "match_triggers ev
            (filter (\<lambda>tr. t_enabled tr \<and> off_cooldown now tr \<and> t_trigger_event tr = e)
               (trigger_rules db)) = Inr fired"
      by (simp add: evaluate_triggers_def Some v)
    have "fired = filter (\<lambda>tr. conditions_match ev tr = Inr True)
            (filter (\<lambda>tr. t_enabled tr \<and> off_cooldown now tr \<and> t_trigger_event tr = e)
               (trigger_rules db))"
      by (rule match_triggers_Inr [OF m])
    also have "\<dots> = filter (rule_fires now ev) (trigger_rules db)"
      unfolding filter_filter
      by (rule filter_cong [OF refl]) (auto simp: rule_fires_conditions_match Some v)
    finally show ?thesis .
  next
    case False
    with assms Some have n: "v = PNone"
      by (cases v) (simp_all add: evaluate_triggers_def)
    then have "filter (rule_fires now ev) (trigger_rules db) = []"
      by (simp add: rule_fires_def filter_empty_conv Some)
    with assms Some n show ?thesis by (simp add: evaluate_triggers_def)
  qed
qed

lemma evaluate_triggers_no_kind:
  "ev ''event_type'' = None \<or> ev ''event_type'' = Some PNone \<Longrightarrow>
   evaluate_triggers db ev now = Inr []"
  by (auto simp: evaluate_triggers_def)

lemma evaluate_triggers_bad_kind:
  "ev ''event_type'' = Some v \<Longrightarrow> v \<noteq> PNone \<Longrightarrow> \<forall>e. v \<noteq> PStr e \<Longrightarrow>
   evaluate_triggers db ev now = Inl StorageError"
  by (cases v) (simp_all add: evaluate_triggers_def)

lemma evaluate_triggers_returns:
  assumes "ev ''event_type'' = Some (PStr e)"
    and "\<forall>tr \<in> set (trigger_rules db).
           t_enabled tr \<and> off_cooldown now tr \<and> t_trigger_event tr = e \<longrightarrow>
           (\<exists>b. conditions_match ev tr = Inr b)"
  shows "evaluate_triggers db ev now = Inr (filter (rule_fires now ev) (trigger_rules db))"
proof -
  have "\<forall>tr \<in> set (filter (\<lambda>tr. t_enabled tr \<and> off_cooldown now tr \<and> t_trigger_event tr = e)
               (trigger_rules db)). \<exists>b. conditions_match ev tr = Inr b"
    using assms(2) by simp
  then have "\<exists>out. match_triggers ev
       (filter (\<lambda>tr. t_enabled tr \<and> off_cooldown now tr \<and> t_trigger_event tr = e)
               (trigger_rules db)) = Inr out"
    by (rule match_triggers_total)
  then obtain fired where f: "evaluate_triggers db ev now = Inr fired"
    by (auto simp: evaluate_triggers_def assms(1))
  from evaluate_triggers_Inr [OF f] f show ?thesis by simp
qed

lemma evaluate_triggers_raises:
  assumes "ev ''event_type'' = Some (PStr e)"
    and "\<not> (\<forall>tr \<in> set (trigger_rules db).
           t_enabled tr \<and> off_cooldown now tr \<and> t_trigger_event tr = e \<longrightarrow>
           (\<exists>b. conditions_match ev tr = Inr b))"
  shows "\<exists>err. evaluate_triggers db ev now = Inl err"
proof -
  from assms(2) have "\<exists>tr \<in> set (filter (\<lambda>tr. t_enabled tr \<and> off_cooldown now tr \<and>
      t_trigger_event tr = e) (trigger_rules db)). \<forall>b. conditions_match ev tr \<noteq> Inr b"
    by auto
  then have "\<exists>err. match_triggers ev (filter (\<lambda>tr. t_enabled tr \<and> off_cooldown now tr \<and>
      t_trigger_event tr = e) (trigger_rules db)) = Inl err"
    by (rule match_triggers_raises)
  then show ?thesis by (simp add: evaluate_triggers_def assms(1))
qed

text \<open>
  C6, as amended. Whenever \<^verbatim>\<open>evaluate_triggers\<close> returns, it returns exactly the stored
  rules that are enabled, listen for the event's kind, are off cooldown and on whose
  condition tree the condition matcher returns true, in storage order; a rule that fired
  within its cooldown window is not among them. For an event whose kind is a string it
  returns exactly when the condition check of every candidate rule (enabled, off cooldown,
  listening for this kind) returns; when the check of a candidate raises, the call raises
  and reports no rule. An event with no kind, or with \<^verbatim>\<open>None\<close> as kind, gets no rule;
  a kind of any other sort is rejected by the storage layer.
\<close>

theorem evaluate_triggers_selects:
  "(evaluate_triggers db ev now = Inr fired \<longrightarrow>
      fired = filter (rule_fires now ev) (trigger_rules db)) \<and>
   (ev ''event_type'' = None \<or> ev ''event_type'' = Some PNone \<longrightarrow>
      evaluate_triggers db ev now = Inr []) \<and>
   (ev ''event_type'' = Some (PStr e) \<longrightarrow>
      (if \<forall>tr \<in> set (trigger_rules db).
            t_enabled tr \<and> off_cooldown now tr \<and> t_trigger_event tr = e \<longrightarrow>
            (\<exists>b. conditions_match ev tr = Inr b)
       then evaluate_triggers db ev now = Inr (filter (rule_fires now ev) (trigger_rules db))
       else \<exists>err. evaluate_triggers db ev now = Inl err)) \<and>
   (ev ''event_type'' = Some v \<and> v \<noteq> PNone \<and> (\<forall>e'. v \<noteq> PStr e') \<longrightarrow>
      evaluate_triggers db ev now = Inl StorageError)"
proof -
  have a: "evaluate_triggers db ev now = Inr fired \<longrightarrow>
      fired = filter (rule_fires now ev) (trigger_rules db)"
    using evaluate_triggers_Inr [of db ev now fired] by blast
  have b: "ev ''event_type'' = None \<or> ev ''event_type'' = Some PNone \<longrightarrow>
      evaluate_triggers db ev now = Inr []"
    using evaluate_triggers_no_kind [of ev db now] by blast
  have c: "ev ''event_type'' = Some (PStr e) \<longrightarrow>
      (if \<forall>tr \<in> set (trigger_rules db).
            t_enabled tr \<and> off_cooldown now tr \<and> t_trigger_event tr = e \<longrightarrow>
            (\<exists>b. conditions_match ev tr = Inr b)
       then evaluate_triggers db ev now = Inr (filter (rule_fires now ev) (trigger_rules db))
       else \<exists>err. evaluate_triggers db ev now = Inl err)"
    using evaluate_triggers_returns [of ev e db now] evaluate_triggers_raises [of ev e db now]
    by (simp split: if_split)
  have d: "ev ''event_type'' = Some v \<and> v \<noteq> PNone \<and> (\<forall>e'. v \<noteq> PStr e') \<longrightarrow>
      evaluate_triggers db ev now = Inl StorageError"
    using evaluate_triggers_bad_kind [of ev v db now] by blast
  from a b c d show ?thesis by blast
qed

theorem evaluate_triggers_selects_witness:
  "evaluate_triggers rules_db price_event 60000000 = Inr [rule_price] \<and>
   evaluate_triggers rules_db price_event 301000000 = Inr [rule_price, rule_cooling] \<and>
   evaluate_triggers rules_db low_price_event 301000000
     = Inr [rule_cooling] \<and>
   evaluate_triggers rules_db [''price'' \<mapsto> PInt 100] 301000000 = Inr []"
proof -
  have c1: "conditions_match price_event rule_price = Inr True"
    by (simp add: conditions_match_def rule_price_def price_event_def py_le_def)
  have c2: "conditions_match price_event rule_cooling = Inr True"
    by (simp add: conditions_match_def rule_cooling_def)
  have c3: "conditions_match low_price_event rule_price = Inr False"
    by (simp add: conditions_match_def rule_price_def low_price_event_def py_le_def)
  have c4: "conditions_match low_price_event rule_cooling = Inr True"
    by (simp add: conditions_match_def rule_cooling_def)
  have e1: "price_event ''event_type'' = Some (PStr ''price_alert'')"
    by (simp add: price_event_def)
  have e2: "low_price_event ''event_type'' = Some (PStr ''price_alert'')"
    by (simp add: low_price_event_def)
  have r: "trigger_rules rules_db = [rule_price, rule_cooling]"
    by (simp add: rules_db_def)
  have h1: "\<forall>tr \<in> set (trigger_rules rules_db). \<exists>b. conditions_match price_event tr = Inr b"
  proof -
    from c1 have "\<exists>b. conditions_match price_event rule_price = Inr b" by (rule exI)
    moreover from c2 have "\<exists>b. conditions_match price_event rule_cooling = Inr b"
      by (rule exI)
    ultimately show ?thesis by (simp add: r)
  qed
  have h2: "\<forall>tr \<in> set (trigger_rules rules_db).
              \<exists>b. conditions_match low_price_event tr = Inr b"
  proof -
    from c3 have "\<exists>b. conditions_match low_price_event rule_price = Inr b"
      by (rule exI)
    moreover from c4
    have "\<exists>b. conditions_match low_price_event rule_cooling = Inr b"
      by (rule exI)
    ultimately show ?thesis by (simp add: r)
  qed
  have h1': "\<forall>tr \<in> set (trigger_rules rules_db).
      t_enabled tr \<and> off_cooldown 60000000 tr \<and> t_trigger_event tr = ''price_alert'' \<longrightarrow>
      (\<exists>b. conditions_match price_event tr = Inr b)"
    by (intro ballI impI, rule h1 [rule_format], assumption)
  have h1'': "\<forall>tr \<in> set (trigger_rules rules_db).
      t_enabled tr \<and> off_cooldown 301000000 tr \<and> t_trigger_event tr = ''price_alert'' \<longrightarrow>
      (\<exists>b. conditions_match price_event tr = Inr b)"
    by (intro ballI impI, rule h1 [rule_format], assumption)
  have h2': "\<forall>tr \<in> set (trigger_rules rules_db).
      t_enabled tr \<and> off_cooldown 301000000 tr \<and> t_trigger_event tr = ''price_alert'' \<longrightarrow>
      (\<exists>b. conditions_match low_price_event tr = Inr b)"
    by (intro ballI impI, rule h2 [rule_format], assumption)
  note tha = evaluate_triggers_selects
      [of rules_db price_event 60000000 "[]" "''price_alert''" PNone]
  note thb = evaluate_triggers_selects
      [of rules_db price_event 301000000 "[]" "''price_alert''" PNone]
  note thc = evaluate_triggers_selects
      [of rules_db low_price_event 301000000 "[]" "''price_alert''" PNone]
  have a: "evaluate_triggers rules_db price_event 60000000
             = Inr (filter (rule_fires 60000000 price_event) (trigger_rules rules_db))"
    using tha [THEN conjunct2, THEN conjunct2, THEN conjunct1, THEN mp, OF e1]
    unfolding if_P [OF h1'] .
  have b: "evaluate_triggers rules_db price_event 301000000
             = Inr (filter (rule_fires 301000000 price_event) (trigger_rules rules_db))"
    using thb [THEN conjunct2, THEN conjunct2, THEN conjunct1, THEN mp, OF e1]
    unfolding if_P [OF h1''] .
  have c: "evaluate_triggers rules_db low_price_event 301000000
             = Inr (filter (rule_fires 301000000 low_price_event)
                     (trigger_rules rules_db))"
    using thc [THEN conjunct2, THEN conjunct2, THEN conjunct1, THEN mp, OF e2]
    unfolding if_P [OF h2'] .
  have n: "[''price'' \<mapsto> PInt 100] ''event_type'' = None \<or>
           [''price'' \<mapsto> PInt 100] ''event_type'' = Some PNone"
    by simp
  have d: "evaluate_triggers rules_db [''price'' \<mapsto> PInt 100] 301000000 = Inr []"
    using evaluate_triggers_selects
      [of rules_db "[''price'' \<mapsto> PInt 100]" 301000000 "[]" "''price_alert''" PNone,
        THEN conjunct2, THEN conjunct1, THEN mp, OF n] .
  have ep: "t_enabled rule_price \<and> t_trigger_event rule_price = ''price_alert'' \<and>
            t_last_fired_at rule_price = None"
    by (simp add: rule_price_def)
  have ec: "t_enabled rule_cooling \<and> t_trigger_event rule_cooling = ''price_alert'' \<and>
            t_last_fired_at rule_cooling = Some 0 \<and> t_cooldown_minutes rule_cooling = 5"
    by (simp add: rule_cooling_def)
  have p1: "rule_fires 60000000 price_event rule_price"
    and p2: "\<not> rule_fires 60000000 price_event rule_cooling"
    and p3: "rule_fires 301000000 price_event rule_price"
    and p4: "rule_fires 301000000 price_event rule_cooling"
    and p5: "\<not> rule_fires 301000000 low_price_event rule_price"
    and p6: "rule_fires 301000000 low_price_event rule_cooling"
    by (simp_all add: rule_fires_conditions_match off_cooldown_def c1 c2 c3 c4 e1 e2 ep ec)
  have fa: "filter (rule_fires 60000000 price_event) (trigger_rules rules_db) = [rule_price]"
    by (simp add: r p1 p2)
  have fb: "filter (rule_fires 301000000 price_event) (trigger_rules rules_db)
              = [rule_price, rule_cooling]"
    by (simp add: r p3 p4)
  have fc: "filter (rule_fires 301000000 low_price_event)
              (trigger_rules rules_db) = [rule_cooling]"
    by (simp add: r p5 p6)
  show ?thesis unfolding a b c d fa fb fc by simp
qed

text \<open>
  C6 as stated fails: for the event \<^verbatim>\<open>{"event_type": "price_alert", "price": "abc"}\<close>
  the rule without conditions is enabled, listens for the event, is off cooldown and
  matches, but the registry does not return it: the check of the other rule compares
  \<^verbatim>\<open>'abc'\<close> with 50, and the \<^verbatim>\<open>TypeError\<close> ends the whole evaluation.
\<close>

theorem evaluate_triggers_raises_counterexample:
  "evaluate_triggers rules_db text_price_event 301000000
     = Inl TypeError \<and>
   filter (rule_fires 301000000 text_price_event)
     (trigger_rules rules_db) = [rule_cooling]"
  by (simp add: evaluate_triggers_def rules_db_def rule_price_def rule_cooling_def
      text_price_event_def rule_fires_def off_cooldown_def conditions_match_def py_le_def)

section \<open>Properties of the compilation of a proposal\<close>

lemma compile_body_not_accepted:
  assumes "\<forall>p \<in> set (proposals db). p_id p = pid \<longrightarrow> p_status p \<noteq> ''accepted''"
  shows "compile_body dflt db pid cb now
           = (db, Inl (ValueError ''Proposal not found or not accepted''))"
proof -
  from assms have "find (\<lambda>p. p_id p = pid \<and> p_status p = ''accepted'') (proposals db) = None"
    by (simp add: find_None_iff)
  then show ?thesis by (simp add: compile_body_def)
qed

lemma create_mission_rollback:
  "snd (create_mission_from_proposal dflt db pid cb now) = Inl e \<Longrightarrow>
   fst (create_mission_from_proposal dflt db pid cb now) = db"
  by (simp add: create_mission_from_proposal_def split: prod.splits sum.splits)

text \<open>
  C4. When no proposal of the given id is accepted, \<^verbatim>\<open>create_mission_from_proposal\<close>
  raises \<^verbatim>\<open>ValueError\<close> and the storage state is as it was before: no mission row,
  no step row and no change of a proposal persist. Whatever exception a compilation ends
  with, the storage state is as it was before the call.
\<close>

theorem create_mission_from_proposal_atomic:
  "((\<forall>p \<in> set (proposals db). p_id p = pid \<longrightarrow> p_status p \<noteq> ''accepted'') \<longrightarrow>
      create_mission_from_proposal dflt db pid cb now
        = (db, Inl (ValueError ''Proposal not found or not accepted''))) \<and>
   (snd (create_mission_from_proposal dflt db pid cb now) = Inl e \<longrightarrow>
      fst (create_mission_from_proposal dflt db pid cb now) = db)"
  using compile_body_not_accepted [of db pid dflt cb now]
    create_mission_rollback [of dflt db pid cb now e]
  by (simp add: create_mission_from_proposal_def)

lemma broken_body:
  "compile_body example_defaults proposals_db 9 ''ops'' 100 = (w, r) \<Longrightarrow>
   r = Inl AttributeError \<and> length (missions w) = 1 \<and> length (steps w) = 1"
  by (auto simp add: compile_body_def proposals_db_def accepted_proposal_def pending_proposal_def
      broken_proposal_def py_iter_def step_params_def dict_get_def text_param_def Let_def)

theorem create_mission_from_proposal_atomic_witness:
  "create_mission_from_proposal example_defaults proposals_db 8 ''ops'' 100
     = (proposals_db, Inl (ValueError ''Proposal not found or not accepted'')) \<and>
   snd (compile_body example_defaults proposals_db 9 ''ops'' 100) = Inl AttributeError \<and>
   length (missions (fst (compile_body example_defaults proposals_db 9 ''ops'' 100))) = 1 \<and>
   length (steps (fst (compile_body example_defaults proposals_db 9 ''ops'' 100))) = 1 \<and>
   create_mission_from_proposal example_defaults proposals_db 9 ''ops'' 100
     = (proposals_db, Inl AttributeError)"
proof -
  note th8 = create_mission_from_proposal_atomic
    [of proposals_db 8 example_defaults "''ops''" 100 AttributeError]
  note th9 = create_mission_from_proposal_atomic
    [of proposals_db 9 example_defaults "''ops''" 100 AttributeError]
  have h: "\<forall>p \<in> set (proposals proposals_db). p_id p = 8 \<longrightarrow> p_status p \<noteq> ''accepted''"
    by (simp add: proposals_db_def accepted_proposal_def pending_proposal_def
        broken_proposal_def)
  have a: "create_mission_from_proposal example_defaults proposals_db 8 ''ops'' 100
     = (proposals_db, Inl (ValueError ''Proposal not found or not accepted''))"
    using th8 h by blast
  obtain w r where wr: "compile_body example_defaults proposals_db 9 ''ops'' 100 = (w, r)"
    by (cases "compile_body example_defaults proposals_db 9 ''ops'' 100")
  from broken_body [OF wr]
  have b: "r = Inl AttributeError" and c: "length (missions w) = 1"
    and d: "length (steps w) = 1"
    by simp_all
  have s: "snd (create_mission_from_proposal example_defaults proposals_db 9 ''ops'' 100)
             = Inl AttributeError"
    by (simp add: create_mission_from_proposal_def wr b)
  with th9 have "fst (create_mission_from_proposal example_defaults proposals_db 9 ''ops'' 100)
             = proposals_db"
    by blast
  with s have e: "create_mission_from_proposal example_defaults proposals_db 9 ''ops'' 100
     = (proposals_db, Inl AttributeError)"
    by (simp add: prod_eq_iff)
  show ?thesis using a b c d e by (simp add: wr)
qed

lemma insert_steps_all:
  "map step_params templates = map Inr params \<Longrightarrow>
   insert_steps dflt w mid now templates =
     (w\<lparr>steps := steps w @
           map (\<lambda>(i, kind, payload, assigned_to).
                  new_step dflt i mid kind payload assigned_to now)
             (enumerate (next_id w) params),
        next_id := next_id w + length params\<rparr>, None)"
proof (induction templates arbitrary: w params)
  case Nil
  then show ?case by simp
next
  case (Cons tpl templates)
  from Cons.prems obtain f fs where params: "params = f # fs"
    and f: "step_params tpl = Inr f" and fs: "map step_params templates = map Inr fs"
    by (cases params) auto
  obtain kind payload assigned_to where fk: "f = (kind, payload, assigned_to)"
    by (cases f)
  show ?case
    by (simp add: f fk params Cons.IH [OF fs])
qed

lemma create_mission_success:
  assumes sel: "find (\<lambda>p. p_id p = pid \<and> p_status p = ''accepted'') (proposals db) = Some p"
    and tpls: "p_proposed_steps p = PList templates"
    and wf: "map step_params templates = map Inr params"
  shows "create_mission_from_proposal dflt db pid cb now =
    (db\<lparr>missions := missions db @
           [\<lparr>m_id = next_id db, m_title = p_title p, m_created_by = cb,
             m_mission_type = ''entry'', m_proposal_id = Some pid,
             m_metadata = PDict [(''source_proposal'', PStr (uuid_str pid)),
                                 (''original_agent'', PStr (p_agent_id p)),
                                 (''signal_type'', PStr (p_signal_type p))],
             m_status = d_mission_status dflt, m_created_at = now, m_completed_at = None\<rparr>],
        steps := steps db @
           map (\<lambda>(i, kind, payload, assigned_to).
                  new_step dflt i (next_id db) kind payload assigned_to now)
             (enumerate (Suc (next_id db)) params),
        next_id := Suc (next_id db) + length params,
        proposals := map (\<lambda>q. if p_id q = pid
                                then q\<lparr>p_status := ''accepted'', p_accepted_at := Some now\<rparr>
                                else q) (proposals db)\<rparr>,
     Inr (next_id db))"
  by (simp add: create_mission_from_proposal_def compile_body_def sel tpls py_iter_def Let_def
      insert_steps_all [OF wf])

lemma new_steps_params:
  "map (\<lambda>s. (s_mission_id s, s_kind s, s_payload s, s_assigned_to s))
     (map (\<lambda>(i, kind, payload, assigned_to).
             new_step dflt i mid kind payload assigned_to now) (enumerate n params))
   = map (\<lambda>(kind, payload, assigned_to). (mid, kind, payload, assigned_to)) params"
  by (induction params arbitrary: n) (auto simp: new_step_def)

lemma new_steps_ids:
  "map s_id (map (\<lambda>(i, kind, payload, assigned_to).
                    new_step dflt i mid kind payload assigned_to now) (enumerate n params))
   = [n ..< n + length params]"
  by (simp add: new_step_def split_def comp_def)

text \<open>
  C9. For an accepted proposal whose step templates form a list of templates that the
  insert statement accepts, \<^verbatim>\<open>create_mission_from_proposal\<close> returns the id of a new
  mission; it appends exactly one mission, for this proposal, and exactly one step per
  template, each of this mission and with the kind, payload and assignee of its template,
  in the order of the templates, with ids generated in that order.
\<close>

theorem create_mission_from_proposal_steps:
  assumes "find (\<lambda>p. p_id p = pid \<and> p_status p = ''accepted'') (proposals db) = Some p"
    and "p_proposed_steps p = PList templates"
    and "map step_params templates = map Inr params"
  shows "\<exists>db' m new.
     create_mission_from_proposal dflt db pid cb now = (db', Inr (next_id db)) \<and>
     missions db' = missions db @ [m] \<and>
     m_id m = next_id db \<and> m_proposal_id m = Some pid \<and> m_title m = p_title p \<and>
     m_created_by m = cb \<and>
     steps db' = steps db @ new \<and>
     length new = length templates \<and>
     map (\<lambda>s. (s_mission_id s, s_kind s, s_payload s, s_assigned_to s)) new
       = map (\<lambda>(kind, payload, assigned_to). (next_id db, kind, payload, assigned_to)) params \<and>
     map s_id new = [Suc (next_id db) ..< Suc (next_id db) + length templates]"
proof -
  from assms(3) have len: "length params = length templates"
    by (metis length_map)
  define new where
    "new = map (\<lambda>(i, kind, payload, assigned_to).
                  new_step dflt i (next_id db) kind payload assigned_to now)
             (enumerate (Suc (next_id db)) params)"
  define m where
    "m = \<lparr>m_id = next_id db, m_title = p_title p, m_created_by = cb,
          m_mission_type = ''entry'', m_proposal_id = Some pid,
          m_metadata = PDict [(''source_proposal'', PStr (uuid_str pid)),
                              (''original_agent'', PStr (p_agent_id p)),
                              (''signal_type'', PStr (p_signal_type p))],
          m_status = d_mission_status dflt, m_created_at = now, m_completed_at = None\<rparr>"
  define db' where
    "db' = db\<lparr>missions := missions db @ [m], steps := steps db @ new,
              next_id := Suc (next_id db) + length params,
              proposals := map (\<lambda>q. if p_id q = pid
                                      then q\<lparr>p_status := ''accepted'', p_accepted_at := Some now\<rparr>
                                      else q) (proposals db)\<rparr>"
  have res: "create_mission_from_proposal dflt db pid cb now = (db', Inr (next_id db))"
    unfolding create_mission_success [OF assms] db'_def m_def new_def by (rule refl)
  have ms: "missions db' = missions db @ [m]" and ss: "steps db' = steps db @ new"
    by (simp_all add: db'_def)
  have mf: "m_id m = next_id db \<and> m_proposal_id m = Some pid \<and> m_title m = p_title p \<and>
     m_created_by m = cb"
    by (simp add: m_def)
  have l: "length new = length templates"
    by (simp add: new_def len)
  have f: "map (\<lambda>s. (s_mission_id s, s_kind s, s_payload s, s_assigned_to s)) new
       = map (\<lambda>(kind, payload, assigned_to). (next_id db, kind, payload, assigned_to)) params"
    unfolding new_def by (rule new_steps_params)
  have i: "map s_id new = [Suc (next_id db) ..< Suc (next_id db) + length templates]"
    unfolding new_def by (simp only: new_steps_ids len)
  from res ms ss mf l f i show ?thesis by blast
qed

theorem create_mission_from_proposal_steps_witness:
  "\<exists>db'. create_mission_from_proposal example_defaults proposals_db 7 ''ops'' 100
           = (db', Inr 20) \<and>
     map m_id (missions db') = [20] \<and>
     map (\<lambda>s. (s_mission_id s, s_kind s, s_payload s, s_assigned_to s)) (steps db')
       = [(20, ''analyze'', PDict [], Some ''sage''),
          (20, ''execute_trade'', PDict [], Some ''scout'')] \<and>
     map s_id (steps db') = [21, 22]"
proof -
  have a: "find (\<lambda>p. p_id p = 7 \<and> p_status p = ''accepted'') (proposals proposals_db)
             = Some accepted_proposal"
    by (simp add: proposals_db_def accepted_proposal_def)
  have b: "p_proposed_steps accepted_proposal =
      PList [PDict [(''kind'', PStr ''analyze''), (''assigned_to'', PStr ''sage'')],
             PDict [(''kind'', PStr ''execute_trade''), (''assigned_to'', PStr ''scout'')]]"
    by (simp add: accepted_proposal_def)
  have c: "map step_params
             [PDict [(''kind'', PStr ''analyze''), (''assigned_to'', PStr ''sage'')],
              PDict [(''kind'', PStr ''execute_trade''), (''assigned_to'', PStr ''scout'')]]
           = map Inr [(''analyze'', PDict [], Some ''sage''),
                      (''execute_trade'', PDict [], Some ''scout'')]"
    by (simp add: step_params_def dict_get_def text_param_def)
  from create_mission_from_proposal_steps [OF a b c, of example_defaults "''ops''" 100]
  obtain db' m new where
    r: "create_mission_from_proposal example_defaults proposals_db 7 ''ops'' 100
          = (db', Inr (next_id proposals_db))"
    and ms: "missions db' = missions proposals_db @ [m]" and mi: "m_id m = next_id proposals_db"
    and ss: "steps db' = steps proposals_db @ new"
    and f: "map (\<lambda>s. (s_mission_id s, s_kind s, s_payload s, s_assigned_to s)) new
       = map (\<lambda>(kind, payload, assigned_to). (next_id proposals_db, kind, payload, assigned_to))
           [(''analyze'', PDict [], Some ''sage''),
            (''execute_trade'', PDict [], Some ''scout'')]"
    and i: "map s_id new = [Suc (next_id proposals_db) ..< Suc (next_id proposals_db) +
              length [PDict [(''kind'', PStr ''analyze''), (''assigned_to'', PStr ''sage'')],
                PDict [(''kind'', PStr ''execute_trade''), (''assigned_to'', PStr ''scout'')]]]"
    by blast
  have n: "next_id proposals_db = 20" and e: "missions proposals_db = []"
    and e': "steps proposals_db = []"
    by (simp_all add: proposals_db_def)
  have i': "map s_id new = [21, 22]"
    unfolding i n by (simp add: upt_rec)
  from r ms mi ss f i' show ?thesis
    by (simp add: n e e')
qed

section \<open>The mission status after the last completion\<close>

lemma not_pending_complete_row [simp]: "\<not> is_pending (complete_row r e t x)"
  by (simp add: is_pending_def)

lemma pending_count_zero_iff:
  "pending_count db mid = 0 \<longleftrightarrow> pending_ids db mid = {}"
proof -
  have "pending_count db mid = 0 \<longleftrightarrow>
          (\<forall>s \<in> set (steps db). \<not> (s_mission_id s = mid \<and> is_pending s))"
    by (simp add: pending_count_def filter_empty_conv is_pending_def)
  also have "\<dots> \<longleftrightarrow> pending_ids db mid = {}"
    by (auto simp: pending_ids_def)
  finally show ?thesis .
qed

lemma complete_step_row:
  assumes "y \<in> set (steps (fst (complete_step db sid r e t)))"
  obtains x where "x \<in> set (steps db)"
    and "y = (if s_id x = sid \<and> s_status x = ''running'' then complete_row r e t x else x)"
  using assms unfolding complete_step_steps by (auto simp only: set_map image_iff)

lemma complete_step_ids:
  "map s_id (steps (fst (complete_step db sid r e t))) = map s_id (steps db)"
  unfolding complete_step_steps by (simp add: comp_def if_distrib cong: if_cong)

lemma complete_step_mission_steps:
  "mission_steps (fst (complete_step db sid r e t)) mid = mission_steps db mid"
proof -
  have "map (\<lambda>s. (s_id s, s_mission_id s)) (steps (fst (complete_step db sid r e t)))
          = map (\<lambda>s. (s_id s, s_mission_id s)) (steps db)"
    unfolding complete_step_steps by (simp add: comp_def if_distrib cong: if_cong)
  then have "set (map (\<lambda>s. (s_id s, s_mission_id s)) (steps (fst (complete_step db sid r e t))))
          = set (map (\<lambda>s. (s_id s, s_mission_id s)) (steps db))"
    by simp
  then have eq: "(\<lambda>s. (s_id s, s_mission_id s)) ` set (steps (fst (complete_step db sid r e t)))
          = (\<lambda>s. (s_id s, s_mission_id s)) ` set (steps db)"
    by (simp only: set_map)
  have "\<And>d. mission_steps d mid = {i. (i, mid) \<in> (\<lambda>s. (s_id s, s_mission_id s)) ` set (steps d)}"
    by (auto simp: mission_steps_def)
  then show ?thesis by (simp only: eq)
qed

lemma complete_step_pending_subset:
  "pending_ids (fst (complete_step db sid r e t)) mid \<subseteq> pending_ids db mid"
proof
  fix i
  assume "i \<in> pending_ids (fst (complete_step db sid r e t)) mid"
  then obtain y where y: "y \<in> set (steps (fst (complete_step db sid r e t)))"
    and i: "i = s_id y" and m: "s_mission_id y = mid" and p: "is_pending y"
    by (auto simp: pending_ids_def)
  from y obtain x where x: "x \<in> set (steps db)"
    and yx: "y = (if s_id x = sid \<and> s_status x = ''running'' then complete_row r e t x else x)"
    by (rule complete_step_row)
  from p yx have "y = x"
    by (cases "s_id x = sid \<and> s_status x = ''running''") simp_all
  with x i m p show "i \<in> pending_ids db mid"
    by (auto simp: pending_ids_def)
qed

lemma complete_step_done:
  assumes d: "distinct (map s_id (steps db))"
    and ok: "snd (complete_step db sid r e t)"
  shows "sid \<notin> pending_ids (fst (complete_step db sid r e t)) mid"
proof
  assume "sid \<in> pending_ids (fst (complete_step db sid r e t)) mid"
  then obtain y where y: "y \<in> set (steps (fst (complete_step db sid r e t)))"
    and i: "s_id y = sid" and p: "is_pending y"
    by (auto simp: pending_ids_def)
  from y obtain x where x: "x \<in> set (steps db)"
    and yx: "y = (if s_id x = sid \<and> s_status x = ''running'' then complete_row r e t x else x)"
    by (rule complete_step_row)
  from p yx have nohit: "\<not> (s_id x = sid \<and> s_status x = ''running'')"
    by (cases "s_id x = sid \<and> s_status x = ''running''") simp_all
  with yx have "y = x" by simp
  with i have xi: "s_id x = sid" by simp
  from ok obtain z where z: "z \<in> set (steps db)" and zi: "s_id z = sid"
    and zr: "s_status z = ''running''"
    unfolding complete_step_result by blast
  from d x z xi zi have "x = z"
    by (simp add: distinct_map inj_on_def)
  with zr xi nohit show False by simp
qed

lemma pending_ids_steps:
  "steps d = steps d' \<Longrightarrow> pending_ids d mid = pending_ids d' mid"
  by (simp add: pending_ids_def)

lemma complete_step_marks_mission:
  assumes d: "distinct (map s_id (steps db))"
    and ok: "snd (complete_step db sid r e t)"
    and ms: "sid \<in> mission_steps db mid"
    and pe: "pending_ids (fst (complete_step db sid r e t)) mid = {}"
  shows "\<forall>m \<in> set (missions (fst (complete_step db sid r e t))).
           m_id m = mid \<longrightarrow> m_status m = ''succeeded''"
proof -
  define db1 where
    "db1 = db\<lparr>steps := map (\<lambda>s. if s_id s = sid \<and> s_status s = ''running''
                                  then complete_row r e t s else s) (steps db)\<rparr>"
  from ok have "filter (\<lambda>s. s_id s = sid \<and> s_status s = ''running'') (steps db) \<noteq> []"
    unfolding complete_step_result by (simp add: filter_empty_conv)
  then obtain y ys where
    fl: "filter (\<lambda>s. s_id s = sid \<and> s_status s = ''running'') (steps db) = y # ys"
    by (cases "filter (\<lambda>s. s_id s = sid \<and> s_status s = ''running'') (steps db)") simp_all
  then have "y \<in> set (filter (\<lambda>s. s_id s = sid \<and> s_status s = ''running'') (steps db))"
    by simp
  then have y: "y \<in> set (steps db)" and yi: "s_id y = sid" by simp_all
  from ms obtain x where x: "x \<in> set (steps db)" and xi: "s_id x = sid"
    and xm: "s_mission_id x = mid"
    by (auto simp: mission_steps_def)
  from d x y xi yi have "x = y" by (simp add: distinct_map inj_on_def)
  with xm have ym: "s_mission_id y = mid" by simp
  have val: "complete_step db sid r e t =
      (if pending_count db1 mid = 0
       then (db1\<lparr>missions := map (\<lambda>m. if m_id m = mid
                                       then m\<lparr>m_status := ''succeeded'',
                                              m_completed_at := Some t\<rparr>
                                       else m) (missions db1)\<rparr>, True)
       else (db1, True))"
    by (simp add: complete_step_def Let_def fl ym db1_def)
  have "steps (fst (complete_step db sid r e t)) = steps db1"
    by (simp add: val)
  then have "pending_ids db1 mid = pending_ids (fst (complete_step db sid r e t)) mid"
    by (simp add: pending_ids_def)
  with pe have "pending_count db1 mid = 0"
    by (simp add: pending_count_zero_iff)
  with val have mm: "missions (fst (complete_step db sid r e t)) =
      map (\<lambda>m. if m_id m = mid
                then m\<lparr>m_status := ''succeeded'', m_completed_at := Some t\<rparr>
                else m) (missions db1)"
    by simp
  show ?thesis
  proof (intro ballI impI)
    fix m
    assume "m \<in> set (missions (fst (complete_step db sid r e t)))" and mi: "m_id m = mid"
    then obtain m0 where
      m: "m = (if m_id m0 = mid
               then m0\<lparr>m_status := ''succeeded'', m_completed_at := Some t\<rparr> else m0)"
      unfolding mm by (auto simp only: set_map image_iff)
    show "m_status m = ''succeeded''"
    proof (cases "m_id m0 = mid")
      case True
      then show ?thesis by (simp add: m)
    next
      case False
      with m mi show ?thesis by simp
    qed
  qed
qed

lemma snd_run_calls_Cons:
  "snd (run_calls db (c # cs)) = snd (run_call db c) # snd (run_calls (fst (run_call db c)) cs)"
  by (simp split: prod.splits)

lemma run_calls_pending:
  assumes "distinct (map s_id (steps db))"
    and "\<forall>c \<in> set cs. is_complete c"
    and "list_all (\<lambda>b. b) (snd (run_calls db cs))"
  shows "pending_ids (fst (run_calls db cs)) mid \<subseteq> pending_ids db mid - call_step ` set cs"
  using assms
proof (induction cs arbitrary: db)
  case Nil
  show ?case by simp
next
  case (Cons c cs)
  from Cons.prems(2) obtain sid r e t where c: "c = Complete sid r e t"
    by (cases c) simp_all
  define db1 where "db1 = fst (complete_step db sid r e t)"
  have res: "snd (run_calls db (c # cs))
               = snd (complete_step db sid r e t) # snd (run_calls db1 cs)"
    by (simp only: snd_run_calls_Cons c run_call.simps db1_def)
  from Cons.prems(3) [unfolded res] have ok: "snd (complete_step db sid r e t)"
    and rest: "list_all (\<lambda>b. b) (snd (run_calls db1 cs))"
    by simp_all
  have d1: "distinct (map s_id (steps db1))"
    using Cons.prems(1) by (simp add: db1_def complete_step_ids)
  from Cons.prems(2) have cc: "\<forall>c \<in> set cs. is_complete c" by simp
  have IH: "pending_ids (fst (run_calls db1 cs)) mid \<subseteq> pending_ids db1 mid - call_step ` set cs"
    by (rule Cons.IH [OF d1 cc rest])
  have "pending_ids db1 mid \<subseteq> pending_ids db mid - {sid}"
    using complete_step_pending_subset [of db sid r e t mid]
      complete_step_done [OF Cons.prems(1) ok, of mid]
    by (auto simp: db1_def)
  with IH have "pending_ids (fst (run_calls db1 cs)) mid
                  \<subseteq> pending_ids db mid - insert sid (call_step ` set cs)"
    by blast
  moreover have "fst (run_calls db (c # cs)) = fst (run_calls db1 cs)"
    by (simp only: fst_run_calls_Cons c run_call.simps db1_def)
  moreover have "call_step ` set (c # cs) = insert sid (call_step ` set cs)"
    by (simp add: c)
  ultimately show ?case by (simp only:)
qed

lemma run_calls_marks_mission:
  assumes "distinct (map s_id (steps db))"
    and "cs \<noteq> []"
    and "\<forall>c \<in> set cs. is_complete c"
    and "list_all (\<lambda>b. b) (snd (run_calls db cs))"
    and "call_step ` set cs \<subseteq> mission_steps db mid"
    and "pending_ids (fst (run_calls db cs)) mid = {}"
  shows "\<forall>m \<in> set (missions (fst (run_calls db cs))).
           m_id m = mid \<longrightarrow> m_status m = ''succeeded''"
  using assms
proof (induction cs arbitrary: db)
  case Nil
  then show ?case by simp
next
  case (Cons c cs)
  from Cons.prems(3) obtain sid r e t where c: "c = Complete sid r e t"
    by (cases c) simp_all
  define db1 where "db1 = fst (complete_step db sid r e t)"
  have res: "snd (run_calls db (c # cs))
               = snd (complete_step db sid r e t) # snd (run_calls db1 cs)"
    by (simp only: snd_run_calls_Cons c run_call.simps db1_def)
  from Cons.prems(4) [unfolded res] have ok: "snd (complete_step db sid r e t)"
    and rest: "list_all (\<lambda>b. b) (snd (run_calls db1 cs))"
    by simp_all
  have fin: "fst (run_calls db (c # cs)) = fst (run_calls db1 cs)"
    by (simp only: fst_run_calls_Cons c run_call.simps db1_def)
  show ?case
  proof (cases "cs = []")
    case True
    have fin1: "fst (run_calls db (c # cs)) = fst (complete_step db sid r e t)"
      using fin by (simp add: True db1_def)
    from Cons.prems(5) have "sid \<in> mission_steps db mid" by (simp add: c)
    moreover from Cons.prems(6) have "pending_ids (fst (complete_step db sid r e t)) mid = {}"
      by (simp only: fin1)
    ultimately have "\<forall>m \<in> set (missions (fst (complete_step db sid r e t))).
           m_id m = mid \<longrightarrow> m_status m = ''succeeded''"
      by (rule complete_step_marks_mission [OF Cons.prems(1) ok])
    then show ?thesis by (simp only: fin1)
  next
    case False
    have d1: "distinct (map s_id (steps db1))"
      using Cons.prems(1) by (simp add: db1_def complete_step_ids)
    from Cons.prems(3) have cc: "\<forall>c \<in> set cs. is_complete c" by simp
    from Cons.prems(5) have sub: "call_step ` set cs \<subseteq> mission_steps db1 mid"
      by (simp add: db1_def complete_step_mission_steps)
    from Cons.prems(6) have pe: "pending_ids (fst (run_calls db1 cs)) mid = {}"
      by (simp only: fin)
    have "\<forall>m \<in> set (missions (fst (run_calls db1 cs))).
           m_id m = mid \<longrightarrow> m_status m = ''succeeded''"
      by (rule Cons.IH [OF d1 False cc rest sub pe])
    then show ?thesis by (simp only: fin)
  qed
qed

lemma pending_subset_mission_steps: "pending_ids db mid \<subseteq> mission_steps db mid"
  by (auto simp: pending_ids_def mission_steps_def)

text \<open>
  What \<^verbatim>\<open>complete_step\<close> does to the mission: when the step ids are distinct and
  every step of a mission is completed by a call that returns true, in any order, every
  mission row of that id ends with status succeeded, whether or not a completion carried
  an error.
\<close>

lemma all_steps_completed_mission_succeeded:
  assumes "distinct (map s_id (steps db))"
    and "cs \<noteq> []"
    and "\<forall>c \<in> set cs. is_complete c"
    and "call_step ` set cs = mission_steps db mid"
    and "list_all (\<lambda>b. b) (snd (run_calls db cs))"
  shows "\<forall>m \<in> set (missions (fst (run_calls db cs))).
           m_id m = mid \<longrightarrow> m_status m = ''succeeded''"
proof -
  have "pending_ids (fst (run_calls db cs)) mid \<subseteq> pending_ids db mid - call_step ` set cs"
    by (rule run_calls_pending [OF assms(1) assms(3) assms(5)])
  with pending_subset_mission_steps [of db mid] assms(4)
  have pe: "pending_ids (fst (run_calls db cs)) mid = {}" by blast
  from assms(4) have sub: "call_step ` set cs \<subseteq> mission_steps db mid" by simp
  show ?thesis
    by (rule run_calls_marks_mission [OF assms(1) assms(2) assms(3) assms(5) sub pe])
qed

lemma mission_steps_filter:
  "mission_steps db mid = set (map s_id (filter (\<lambda>s. s_mission_id s = mid) (steps db)))"
  by (auto simp: mission_steps_def)

lemma two_step_first:
  "complete_step two_step_db 11 None (Some ''timeout'') 20 =
     (two_step_db\<lparr>steps := [complete_row None (Some ''timeout'') 20 running_step,
                               second_running_step]\<rparr>, True)"
  by (simp add: complete_step_def Let_def pending_count_def two_step_db_def running_step_def
      second_running_step_def complete_row_def)

lemma two_step_second:
  "complete_step
     (two_step_db\<lparr>steps := [complete_row None (Some ''timeout'') 20 running_step,
                               second_running_step]\<rparr>) 12 None None 21 =
     (two_step_db\<lparr>steps := [complete_row None (Some ''timeout'') 20 running_step,
                               complete_row None None 21 second_running_step],
                    missions := [example_mission\<lparr>m_status := ''succeeded'',
                                                  m_completed_at := Some 21\<rparr>]\<rparr>, True)"
  by (simp add: complete_step_def Let_def pending_count_def two_step_db_def running_step_def
      second_running_step_def complete_row_def completed_status_def example_mission_def)

text \<open>
  C1. On a mission with two running steps, completing the first step with an error and
  the second without one, each call returns true, the first step is failed, and the
  mission's status becomes succeeded: the update of the mission writes
  \<^verbatim>\<open>'succeeded'\<close> whenever no step is pending, and never \<^verbatim>\<open>'failed'\<close>.
\<close>

theorem mission_succeeded_despite_failed_step:
  "snd (run_calls two_step_db [Complete 11 None (Some ''timeout'') 20, Complete 12 None None 21])
     = [True, True] \<and>
   map s_status (steps (fst (run_calls two_step_db
       [Complete 11 None (Some ''timeout'') 20, Complete 12 None None 21])))
     = [''failed'', ''succeeded''] \<and>
   map m_status (missions (fst (run_calls two_step_db
       [Complete 11 None (Some ''timeout'') 20, Complete 12 None None 21])))
     = [''succeeded'']"
  by (simp add: two_step_first two_step_second completed_status_def)

lemma all_steps_completed_example:
  "distinct (map s_id (steps two_step_db)) \<and>
   call_step ` set [Complete 11 None (Some ''timeout'') 20, Complete 12 None None 21]
     = mission_steps two_step_db 1 \<and>
   list_all (\<lambda>b. b) (snd (run_calls two_step_db
      [Complete 11 None (Some ''timeout'') 20, Complete 12 None None 21])) \<and>
   (\<forall>m \<in> set (missions (fst (run_calls two_step_db
       [Complete 11 None (Some ''timeout'') 20, Complete 12 None None 21]))).
      m_id m = 1 \<longrightarrow> m_status m = ''succeeded'')"
proof -
  have d: "distinct (map s_id (steps two_step_db))"
    by (simp add: two_step_db_def running_step_def second_running_step_def)
  have n: "[Complete 11 None (Some ''timeout'') 20, Complete 12 None None 21] \<noteq> []"
    by simp
  have c: "\<forall>c \<in> set [Complete 11 None (Some ''timeout'') 20, Complete 12 None None 21].
             is_complete c"
    by simp
  have "mission_steps two_step_db 1 = {11, 12}"
    by (simp add: mission_steps_filter two_step_db_def running_step_def
        second_running_step_def)
  then have s: "call_step ` set [Complete 11 None (Some ''timeout'') 20, Complete 12 None None 21]
     = mission_steps two_step_db 1"
    by simp
  have r: "list_all (\<lambda>b. b) (snd (run_calls two_step_db
      [Complete 11 None (Some ''timeout'') 20, Complete 12 None None 21]))"
    by (simp add: two_step_first two_step_second)
  from all_steps_completed_mission_succeeded [OF d n c s r] d s r
  show ?thesis by blast
qed

end
